theory Spec2Isabelle
  imports Main "HOL-Library.Word"
begin

section \<open>Captured stacks and annotations (serr.go)\<close>

text \<open>
  A program counter is a \<^verbatim>\<open>uintptr\<close>. The library only compares program counters
  with each other and with zero. Values of type \<^verbatim>\<open>interface{}\<close> (message arguments,
  field values) are opaque to the library and stand here as their printed form; a
  \<^verbatim>\<open>map[string]interface{}\<close> is an association list whose length is the map's
  \<^verbatim>\<open>len\<close> (a nil map is the empty list).
\<close>

type_synonym uintptr = "64 word"
type_synonym iface = string
type_synonym Fields = "(string \<times> iface) list"

text \<open>
  \<^verbatim>\<open>runtime.Callers(skip, pcs)\<close> belongs to the Go runtime. Its first argument here
  is the goroutine's stack at the moment of the call, innermost frame first (index 0 is
  \<^verbatim>\<open>runtime.Callers\<close> itself, index 1 its caller, and so on); it fills a buffer of
  \<open>n\<close> entries after skipping \<open>skip\<close> frames and returns the entries written.
  A skip count is a natural number here: the package documents none below zero.
\<close>

definition runtime_Callers :: "uintptr list \<Rightarrow> nat \<Rightarrow> nat \<Rightarrow> uintptr list" where
  "runtime_Callers stack skip n = take n (drop skip stack)"

definition NewCallers :: "uintptr list \<Rightarrow> nat \<Rightarrow> uintptr list" where
  "NewCallers stack skip = runtime_Callers stack skip 64"

record AdditionalInformation =
  caller :: uintptr
  callerCaller :: uintptr
  fields' :: Fields
  msg :: string
  msgArgs :: "iface list"

definition emptyInformation :: AdditionalInformation where
  "emptyInformation = \<lparr>caller = 0, callerCaller = 0, fields' = [], msg = [], msgArgs = []\<rparr>"

definition NewAdditionalInformationFromCallers :: "uintptr list \<Rightarrow> AdditionalInformation" where
  "NewAdditionalInformationFromCallers callers =
     (let info = emptyInformation;
          info = (if length callers > 0 then info\<lparr>caller := callers ! 0\<rparr> else info);
          info = (if length callers > 1 then info\<lparr>callerCaller := callers ! 1\<rparr> else info)
      in info)"

definition NewAdditionalInformation :: "uintptr list \<Rightarrow> nat \<Rightarrow> AdditionalInformation" where
  "NewAdditionalInformation stack skip =
     (let pcs = runtime_Callers stack skip 2;
          n = length pcs;
          info = emptyInformation;
          info = (if n > 0 then info\<lparr>caller := pcs ! 0\<rparr> else info);
          info = (if n > 1 then info\<lparr>callerCaller := pcs ! 1\<rparr> else info)
      in info)"

section \<open>Error values\<close>

text \<open>
  An \<^verbatim>\<open>error\<close> interface value is \<open>error option\<close>: \<open>None\<close> is nil. A
  \<^verbatim>\<open>*rootError\<close> and a \<^verbatim>\<open>*wrapError\<close> are never written after they are built, so
  they are values. A \<^verbatim>\<open>*joinError\<close> is written by \<^verbatim>\<open>JoinDepth\<close> after it is built
  (its \<^verbatim>\<open>errs\<close> grow in place), so it is an address into a store of join objects.
  An error that is not of this package is \<open>External\<close> (no \<^verbatim>\<open>Unwrap() error\<close> method;
  this covers errors with \<^verbatim>\<open>Unwrap() []error\<close>, which the package never follows from a
  foreign value) or \<open>ExternalWrap\<close> (with an \<^verbatim>\<open>Unwrap() error\<close> method, as
  \<^verbatim>\<open>fmt.Errorf("%w")\<close> builds); the string is what \<^verbatim>\<open>fmt.Sprint\<close> prints for it.
  A foreign type that itself implements \<^verbatim>\<open>Callers()\<close> or
  \<^verbatim>\<open>GetAdditionalInformation()\<close> is outside this model.
\<close>

type_synonym addr = nat

datatype error =
    RootError "uintptr list" "AdditionalInformation option" "error option"
  | WrapError "AdditionalInformation option" "error option"
  | JoinError addr
  | External string
  | ExternalWrap string "error option"

record joinError =
  callers :: "uintptr list"
  errs :: "error option list"

type_synonym store = "joinError list"

text \<open>Reading a join object; an address outside the store reads as an object with no
  capture and no causes (Go has no such pointer).\<close>

definition deref :: "store \<Rightarrow> addr \<Rightarrow> joinError" where
  "deref h a = (if a < length h then h ! a else \<lparr>callers = [], errs = []\<rparr>)"

text \<open>The method sets: \<^verbatim>\<open>Callers()\<close> (interface \<^verbatim>\<open>StackError\<close>, named
  \<^verbatim>\<open>FullStackError\<close> in format.go), \<^verbatim>\<open>GetAdditionalInformation()\<close> (interface
  \<^verbatim>\<open>StackFrameError\<close>, named \<^verbatim>\<open>ExtraStackError\<close> in format.go) and
  \<^verbatim>\<open>Unwrap() error\<close>. \<open>None\<close> means the value has no such method.\<close>

fun Callers :: "store \<Rightarrow> error \<Rightarrow> uintptr list option" where
  "Callers h (RootError cs info e) = Some cs"
| "Callers h (JoinError a) = Some (callers (deref h a))"
| "Callers h _ = None"

fun isStackFrameError :: "error \<Rightarrow> bool" where
  "isStackFrameError (RootError cs info e) = True"
| "isStackFrameError (WrapError info e) = True"
| "isStackFrameError _ = False"

fun GetAdditionalInformation :: "error \<Rightarrow> AdditionalInformation option" where
  "GetAdditionalInformation (RootError cs info e) = info"
| "GetAdditionalInformation (WrapError info e) = info"
| "GetAdditionalInformation _ = None"

fun Unwrap :: "error \<Rightarrow> error option option" where
  "Unwrap (RootError cs info e) = Some e"
| "Unwrap (WrapError info e) = Some e"
| "Unwrap (ExternalWrap s e) = Some e"
| "Unwrap _ = None"

fun Cause :: "store \<Rightarrow> error option \<Rightarrow> error option" where
  "Cause h None = None"
| "Cause h (Some (RootError cs info e)) =
     (if length cs > 0 then Some (RootError cs info e) else Cause h e)"
| "Cause h (Some (WrapError info e)) = Cause h e"
| "Cause h (Some (JoinError a)) =
     (if length (callers (deref h a)) > 0 then Some (JoinError a) else None)"
| "Cause h (Some (External s)) = None"
| "Cause h (Some (ExternalWrap s e)) = Cause h e"

function nextStackFrameError :: "error option \<Rightarrow> error option" where
  "nextStackFrameError None = None"
| "nextStackFrameError (Some err) =
     (case Unwrap err of
        None \<Rightarrow> None
      | Some None \<Rightarrow> None
      | Some (Some err') \<Rightarrow>
          (if \<not> isStackFrameError err' then None
           else if GetAdditionalInformation err' \<noteq> None then Some err'
           else nextStackFrameError (Some err')))"
  by pat_completeness auto
termination
  apply (relation "measure (size_option size)")
   apply simp
  subgoal for err err' by (cases err) auto
  done

section \<open>Construction (serr.go)\<close>

text \<open>
  Every constructor reads the goroutine's stack once, through \<open>NewCallers\<close> or
  \<open>NewAdditionalInformation\<close>; \<open>stack\<close> is that stack at the moment of the read.
  A result of Go type \<^verbatim>\<open>error\<close> is an \<open>error option\<close>.
\<close>

definition ErrorDepths ::
  "uintptr list \<Rightarrow> nat \<Rightarrow> Fields \<Rightarrow> string \<Rightarrow> iface list \<Rightarrow> error option" where
  "ErrorDepths stack skip flds m args =
     (let cs = NewCallers stack (skip + 3);
          additionalInformation = NewAdditionalInformationFromCallers cs;
          additionalInformation = additionalInformation\<lparr>fields' := flds\<rparr>;
          additionalInformation = additionalInformation\<lparr>msg := m\<rparr>;
          additionalInformation = additionalInformation\<lparr>msgArgs := args\<rparr>
      in Some (RootError cs (Some additionalInformation) None))"

definition New :: "uintptr list \<Rightarrow> string \<Rightarrow> error option" where
  "New stack m = ErrorDepths stack 1 [] m []"

definition Errorf :: "uintptr list \<Rightarrow> string \<Rightarrow> iface list \<Rightarrow> error option" where
  "Errorf stack m args = ErrorDepths stack 1 [] m args"

definition Errors :: "uintptr list \<Rightarrow> Fields \<Rightarrow> string \<Rightarrow> iface list \<Rightarrow> error option" where
  "Errors stack flds m args = ErrorDepths stack 1 flds m args"

definition ErrorDepth :: "uintptr list \<Rightarrow> nat \<Rightarrow> string \<Rightarrow> error option" where
  "ErrorDepth stack skip m = ErrorDepths stack (skip + 1) [] m []"

definition ErrorDepthf ::
  "uintptr list \<Rightarrow> nat \<Rightarrow> Fields \<Rightarrow> string \<Rightarrow> iface list \<Rightarrow> error option" where
  "ErrorDepthf stack skip flds m args = ErrorDepths stack (skip + 1) flds m args"

definition WrapDepth :: "store \<Rightarrow> uintptr list \<Rightarrow> nat \<Rightarrow> error option \<Rightarrow> error option" where
  "WrapDepth h stack skip err =
     (if Cause h err \<noteq> None
      then Some (WrapError (Some (NewAdditionalInformation stack (skip + 3))) err)
      else Some (RootError (NewCallers stack (skip + 3)) None err))"

definition WrapDepths ::
  "store \<Rightarrow> uintptr list \<Rightarrow> nat \<Rightarrow> error option \<Rightarrow> Fields \<Rightarrow> string \<Rightarrow> iface list
     \<Rightarrow> error option" where
  "WrapDepths h stack skip err flds m args =
     (if Cause h err \<noteq> None
      then (let additionalInformation = NewAdditionalInformation stack (skip + 3);
                additionalInformation = additionalInformation\<lparr>fields' := flds\<rparr>;
                additionalInformation = additionalInformation\<lparr>msg := m\<rparr>;
                additionalInformation = additionalInformation\<lparr>msgArgs := args\<rparr>
            in Some (WrapError (Some additionalInformation) err))
      else (let cs = NewCallers stack (skip + 3);
                additionalInformation = NewAdditionalInformationFromCallers cs;
                additionalInformation = additionalInformation\<lparr>fields' := flds\<rparr>;
                additionalInformation = additionalInformation\<lparr>msg := m\<rparr>;
                additionalInformation = additionalInformation\<lparr>msgArgs := args\<rparr>
            in Some (RootError cs (Some additionalInformation) err)))"

definition Wrap :: "store \<Rightarrow> uintptr list \<Rightarrow> error option \<Rightarrow> error option" where
  "Wrap h stack err = WrapDepth h stack 1 err"

definition Wrapf ::
  "store \<Rightarrow> uintptr list \<Rightarrow> error option \<Rightarrow> string \<Rightarrow> iface list \<Rightarrow> error option" where
  "Wrapf h stack err m args = WrapDepths h stack 1 err [] m args"

definition Wraps ::
  "store \<Rightarrow> uintptr list \<Rightarrow> error option \<Rightarrow> Fields \<Rightarrow> string \<Rightarrow> iface list
     \<Rightarrow> error option" where
  "Wraps h stack err flds m args = WrapDepths h stack 1 err flds m args"

definition WrapDepthf ::
  "store \<Rightarrow> uintptr list \<Rightarrow> nat \<Rightarrow> error option \<Rightarrow> string \<Rightarrow> iface list \<Rightarrow> error option" where
  "WrapDepthf h stack skip err m args = WrapDepths h stack (skip + 1) err [] m args"

text \<open>
  \<open>JoinDepth\<close> reads and writes the store of join objects, so it takes the store and
  returns it with its result. Its loops: counting the non-nil arguments, returning at the
  first non-nil argument when there is exactly one, appending the non-nil arguments after
  the first to an existing join object, filling a new join object.
\<close>

definition countLive :: "error option list \<Rightarrow> nat" where
  "countLive es = foldl (\<lambda>n err. if err \<noteq> None then n + 1 else n) 0 es"

definition appendErr :: "store \<Rightarrow> addr \<Rightarrow> error option \<Rightarrow> store" where
  "appendErr h a err = h[a := (deref h a)\<lparr>errs := errs (deref h a) @ [err]\<rparr>]"

definition appendLive :: "store \<Rightarrow> addr \<Rightarrow> error option list \<Rightarrow> store" where
  "appendLive h a es = foldl (\<lambda>h err. if err \<noteq> None then appendErr h a err else h) h es"

definition collectLive :: "error option list \<Rightarrow> error option list" where
  "collectLive es = foldl (\<lambda>acc err. if err \<noteq> None then acc @ [err] else acc) [] es"

text \<open>The statements after the two early returns. \<^verbatim>\<open>errs[0]\<close> is in range there:
  at least one argument is not nil.\<close>

definition joinMany :: "store \<Rightarrow> uintptr list \<Rightarrow> nat \<Rightarrow> error option list \<Rightarrow> error option \<times> store" where
  "joinMany h stack skip es =
     (case es of
        Some (JoinError a) # rest \<Rightarrow> (Some (JoinError a), appendLive h a rest)
      | _ \<Rightarrow>
          (Some (JoinError (length h)),
           h @ [\<lparr>callers = NewCallers stack (skip + 3), errs = collectLive es\<rparr>]))"

definition JoinDepth :: "store \<Rightarrow> uintptr list \<Rightarrow> nat \<Rightarrow> error option list \<Rightarrow> error option \<times> store" where
  "JoinDepth h stack skip es =
     (let n = countLive es in
      if n = 0 then (None, h)
      else case (if n = 1 then find (\<lambda>err. err \<noteq> None) es else None) of
             Some err \<Rightarrow> (Some (RootError (NewCallers stack (skip + 3)) None err), h)
           | None \<Rightarrow> joinMany h stack skip es)"

definition Join :: "store \<Rightarrow> uintptr list \<Rightarrow> error option list \<Rightarrow> error option \<times> store" where
  "Join h stack es = JoinDepth h stack 1 es"

section \<open>Reconstruction of the hierarchy (format.go)\<close>

record Location =
  Filename :: string
  Line :: int
  FuncName :: string

text \<open>\<^verbatim>\<open>runtime.CallersFrames\<close> belongs to the Go runtime: \<open>symtab pc\<close> is the file, the
  line and the function name of the frame it yields for \<open>pc\<close>.\<close>

type_synonym symtab = "uintptr \<Rightarrow> string \<times> int \<times> string"

definition LastIndex :: "string \<Rightarrow> char \<Rightarrow> int" where
  "LastIndex s c =
     (case filter (\<lambda>i. s ! i = c) (rev [0..<length s]) of [] \<Rightarrow> - 1 | i # _ \<Rightarrow> int i)"

definition getLocation :: "symtab \<Rightarrow> uintptr \<Rightarrow> Location" where
  "getLocation st pc =
     (if pc = 0 then \<lparr>Filename = [], Line = 0, FuncName = []\<rparr>
      else (case st pc of (file, line, function) \<Rightarrow>
              (let i = LastIndex function CHR ''/'';
                   name = drop (nat (i + 1)) function
               in \<lparr>Filename = file, Line = line, FuncName = name\<rparr>)))"

record WrapLink =
  Msg :: string
  MsgArgs :: "iface list"
  Fields :: Fields
  CallerLocation :: Location

datatype UnpackHierarchy =
  UnpackHierarchy (ErrExternal: "error option") (CallerLocations: "Location list")
    (Links: "WrapLink list") (SubHierarchies: "UnpackHierarchy list")

datatype panic = IndexOutOfRange | NilDereference | InterfaceConversion

text \<open>\<^verbatim>\<open>getLocation\<close> never returns nil, so the nil test of \<^verbatim>\<open>addCallerLocation\<close> never
  fires and a location is a value here.\<close>

definition addCallerLocation :: "UnpackHierarchy \<Rightarrow> Location \<Rightarrow> UnpackHierarchy" where
  "addCallerLocation o' callerLocation =
     (if length (CallerLocations o') > 0 \<and> last (CallerLocations o') = callerLocation then o'
      else UnpackHierarchy (ErrExternal o') (CallerLocations o' @ [callerLocation])
             (Links o') (SubHierarchies o'))"

text \<open>The loop that looks for \<^verbatim>\<open>parentPC\<close> from the deepest frame inward.\<close>

function scanParentPC :: "uintptr list \<Rightarrow> uintptr \<Rightarrow> int \<Rightarrow> int" where
  "scanParentPC cs parentPC callerStartIndex =
     (if callerStartIndex \<ge> 0
      then (if cs ! nat callerStartIndex = parentPC then callerStartIndex - 1
            else scanParentPC cs parentPC (callerStartIndex - 1))
      else callerStartIndex)"
  by pat_completeness auto
termination
  by (relation "measure (\<lambda>(cs, parentPC, i). nat (i + 1))") auto

definition callerStartIndex :: "uintptr list \<Rightarrow> uintptr \<Rightarrow> int" where
  "callerStartIndex cs parentPC =
     (let i = int (length cs) - 1 in if parentPC \<noteq> 0 then scanParentPC cs parentPC i else i)"

definition firstStackFrameError :: "error option \<Rightarrow> error option" where
  "firstStackFrameError err =
     (case err of
        None \<Rightarrow> None
      | Some e \<Rightarrow>
          (if isStackFrameError e
           then (if GetAdditionalInformation e \<noteq> None then Some e else nextStackFrameError err)
           else None))"

text \<open>The inner loop of the frame walk: while the cursor's annotation was made between
  frame \<open>callerIndex + 1\<close> and frame \<open>callerIndex\<close>, emit it and move the cursor on.\<close>

function spliceLinks ::
  "symtab \<Rightarrow> uintptr list \<Rightarrow> int \<Rightarrow> error option \<Rightarrow> UnpackHierarchy
     \<Rightarrow> panic + (error option \<times> UnpackHierarchy)" where
  "spliceLinks st cs callerIndex extraStackErr hierarchy =
     (case extraStackErr of
        None \<Rightarrow> Inr (extraStackErr, hierarchy)
      | Some e \<Rightarrow>
          (if callerIndex = int (length cs) - 1 then Inr (extraStackErr, hierarchy)
           else case GetAdditionalInformation e of
                  None \<Rightarrow> Inl NilDereference
                | Some extraStackData \<Rightarrow>
                    (if cs ! nat (callerIndex + 1) = callerCaller extraStackData
                     then (let callerLocation = getLocation st (caller extraStackData);
                               hierarchy =
                                 (if length (msg extraStackData) \<noteq> 0
                                     \<or> length (msgArgs extraStackData) \<noteq> 0
                                     \<or> length (fields' extraStackData) \<noteq> 0
                                  then UnpackHierarchy (ErrExternal hierarchy)
                                         (CallerLocations hierarchy)
                                         (Links hierarchy @
                                            [\<lparr>Msg = msg extraStackData,
                                              MsgArgs = msgArgs extraStackData,
                                              Fields = fields' extraStackData,
                                              CallerLocation = callerLocation\<rparr>])
                                         (SubHierarchies hierarchy)
                                  else hierarchy);
                               hierarchy = addCallerLocation hierarchy callerLocation
                           in spliceLinks st cs callerIndex (nextStackFrameError extraStackErr)
                                hierarchy)
                     else Inr (extraStackErr, hierarchy))))"
  by pat_completeness auto
termination
proof -
  have less: "nextStackFrameError x = Some e' \<Longrightarrow> x = Some e \<Longrightarrow> size e' < size e"
    for x e e'
  proof (induction x arbitrary: e rule: nextStackFrameError.induct)
    case 1
    then show ?case by simp
  next
    case (2 err)
    show ?case
    proof (cases "Unwrap err")
      case None
      with 2 show ?thesis by simp
    next
      case (Some u)
      show ?thesis
      proof (cases u)
        case None
        with Some 2 show ?thesis by simp
      next
        case (Some err')
        have sz: "size err' < size err" using \<open>Unwrap err = Some u\<close> Some by (cases err) auto
        show ?thesis
        proof (cases "isStackFrameError err' \<and> GetAdditionalInformation err' = None")
          case True
          with 2 Some \<open>Unwrap err = Some u\<close> have "nextStackFrameError (Some err') = Some e'"
            by simp
          with 2(1)[OF \<open>Unwrap err = Some u\<close> Some _ _ _ refl] True have "size e' < size err'"
            by simp
          with sz 2 show ?thesis by simp
        next
          case False
          with 2 Some \<open>Unwrap err = Some u\<close> have "e' = err'"
            by (auto split: if_splits)
          with sz 2 show ?thesis by simp
        qed
      qed
    qed
  qed
  have le: "(case nextStackFrameError (Some e) of None \<Rightarrow> 0 | Some e' \<Rightarrow> Suc (size e'))
              < Suc (size e)" for e
  proof (cases "nextStackFrameError (Some e)")
    case None
    then show ?thesis by (simp del: nextStackFrameError.simps)
  next
    case (Some e')
    with less[OF Some refl] show ?thesis by (simp del: nextStackFrameError.simps)
  qed
  show ?thesis
    apply (relation "measure (\<lambda>(st, cs, i, cursor, hier).
                       case cursor of None \<Rightarrow> 0 | Some e \<Rightarrow> Suc (size e))")
     apply simp
    apply (simp del: nextStackFrameError.simps add: le)
    done
qed

function frameWalk ::
  "symtab \<Rightarrow> uintptr list \<Rightarrow> int \<Rightarrow> error option \<Rightarrow> UnpackHierarchy \<Rightarrow> panic + UnpackHierarchy" where
  "frameWalk st cs callerIndex extraStackErr hierarchy =
     (if callerIndex \<ge> 0
      then (case spliceLinks st cs callerIndex extraStackErr hierarchy of
              Inl p \<Rightarrow> Inl p
            | Inr (extraStackErr, hierarchy) \<Rightarrow>
                frameWalk st cs (callerIndex - 1) extraStackErr
                  (addCallerLocation hierarchy (getLocation st (cs ! nat callerIndex))))
      else Inr hierarchy)"
  by pat_completeness auto
termination
  by (relation "measure (\<lambda>(st, cs, i, cursor, hier). nat (i + 1))") auto

text \<open>\<^verbatim>\<open>Unwrap() []error\<close>, which only a join object has.\<close>

fun UnwrapMany :: "store \<Rightarrow> error \<Rightarrow> error option list option" where
  "UnwrapMany h (JoinError a) = Some (errs (deref h a))"
| "UnwrapMany h _ = None"

text \<open>The results of the recursive calls, in call order: the first call that does not
  return normally ends the whole reconstruction.\<close>

fun collect :: "(panic + UnpackHierarchy) option list \<Rightarrow> (panic + UnpackHierarchy list) option" where
  "collect [] = Some (Inr [])"
| "collect (r # rs) =
     (case r of
        None \<Rightarrow> None
      | Some (Inl p) \<Rightarrow> Some (Inl p)
      | Some (Inr sub) \<Rightarrow>
          (case collect rs of
             None \<Rightarrow> None
           | Some (Inl p) \<Rightarrow> Some (Inl p)
           | Some (Inr subs) \<Rightarrow> Some (Inr (sub # subs))))"

definition flatten :: "UnpackHierarchy \<Rightarrow> UnpackHierarchy list \<Rightarrow> UnpackHierarchy" where
  "flatten hierarchy subs =
     (if length subs = 1
      then (let subHierarchies = subs ! 0
            in UnpackHierarchy (ErrExternal subHierarchies)
                 (CallerLocations hierarchy @ CallerLocations subHierarchies)
                 (Links hierarchy @ Links subHierarchies)
                 (SubHierarchies subHierarchies))
      else UnpackHierarchy (ErrExternal hierarchy) (CallerLocations hierarchy)
             (Links hierarchy) subs)"

text \<open>
  \<^verbatim>\<open>unpack\<close> calls itself on the causes of the anchor, and the causes of a join object
  live in the store, where a join object can reach itself (\<^verbatim>\<open>Join(j, j)\<close> appends
  \<open>j\<close> to its own causes). So the recursion carries fuel: \<open>None\<close> means the fuel ran out,
  \<open>Some (Inl p)\<close> that the Go code panics, \<open>Some (Inr hierarchy)\<close> that it returns.
  \<^verbatim>\<open>callers[1]\<close> is read for every recursive call, before the call.
\<close>

fun unpack ::
  "nat \<Rightarrow> symtab \<Rightarrow> store \<Rightarrow> error option \<Rightarrow> uintptr \<Rightarrow> (panic + UnpackHierarchy) option" where
  "unpack 0 st h err parentPC = None"
| "unpack (Suc fuel) st h err parentPC =
     (case Cause h err of
        None \<Rightarrow> Some (Inr (UnpackHierarchy err [] [] []))
      | Some fullStackErr \<Rightarrow>
          (case Callers h fullStackErr of
             None \<Rightarrow> Some (Inl InterfaceConversion)
           | Some cs \<Rightarrow>
               (case frameWalk st cs (callerStartIndex cs parentPC) (firstStackFrameError err)
                       (UnpackHierarchy None [] [] []) of
                  Inl p \<Rightarrow> Some (Inl p)
                | Inr hierarchy \<Rightarrow>
                    (case (case Unwrap fullStackErr of
                             Some e \<Rightarrow>
                               (if length cs \<le> 1 then Some (Inl IndexOutOfRange)
                                else collect [unpack fuel st h e (cs ! 1)])
                           | None \<Rightarrow>
                               (case UnwrapMany h fullStackErr of
                                  Some es \<Rightarrow>
                                    (if es = [] then Some (Inr [])
                                     else if length cs \<le> 1 then Some (Inl IndexOutOfRange)
                                     else collect (map (\<lambda>e. unpack fuel st h e (cs ! 1)) es))
                                | None \<Rightarrow> Some (Inr []))) of
                       None \<Rightarrow> None
                     | Some (Inl p) \<Rightarrow> Some (Inl p)
                     | Some (Inr subs) \<Rightarrow> Some (Inr (flatten hierarchy subs))))))"

definition Unpack :: "nat \<Rightarrow> symtab \<Rightarrow> store \<Rightarrow> error option \<Rightarrow> (panic + UnpackHierarchy) option" where
  "Unpack fuel st h err = unpack fuel st h err 0"

section \<open>Rendering as a string (format.go)\<close>

text \<open>
  The package \<^verbatim>\<open>fmt\<close> belongs to Go: \<open>Sprintf\<close> interpolates a message and
  \<open>SprintFields\<close> is \<^verbatim>\<open>fmt.Sprint\<close> of a map of fields. \<^verbatim>\<open>fmt.Sprint\<close> of an error
  depends on the error. For a foreign error it prints the error's own text, the string
  of \<open>External\<close> and \<open>ExternalWrap\<close>. An error of this package has a \<^verbatim>\<open>Format\<close>
  method, which \<^verbatim>\<open>fmt\<close> calls: it is \<^verbatim>\<open>printError\<close>, which for the verb of
  \<^verbatim>\<open>Sprint\<close> calls \<^verbatim>\<open>ToString\<close> without trace on the error and writes its result.
  \<^verbatim>\<open>fmt\<close> recovers a panic of a \<^verbatim>\<open>Format\<close> method and prints a text for it,
  \<open>SprintPanic\<close>.
\<close>

record fmt =
  Sprintf :: "string \<Rightarrow> iface list \<Rightarrow> string"
  SprintFields :: "Fields \<Rightarrow> string"
  SprintPanic :: "panic \<Rightarrow> string"

text \<open>The text of a foreign error; an error of this package has none of its own.\<close>

fun foreignText :: "error \<Rightarrow> string option" where
  "foreignText (External s) = Some s"
| "foreignText (ExternalWrap s c) = Some s"
| "foreignText _ = None"

text \<open>\<^verbatim>\<open>fmt.Sprint\<close> of an error, given what the \<^verbatim>\<open>Format\<close> method of an error of
  this package does (\<open>None\<close>: it does not return).\<close>

definition Sprint :: "fmt \<Rightarrow> (error \<Rightarrow> (panic + string) option) \<Rightarrow> error \<Rightarrow> string option" where
  "Sprint host formatMethod e =
     (case foreignText e of
        Some s \<Rightarrow> Some s
      | None \<Rightarrow>
          (case formatMethod e of
             None \<Rightarrow> None
           | Some (Inl p) \<Rightarrow> Some (SprintPanic host p)
           | Some (Inr s) \<Rightarrow> Some s))"

record FormatOptions =
  LocationFormatFunc :: "Location \<Rightarrow> string"
  WithTrace :: bool

record StringFormat =
  Options :: FormatOptions
  MsgStackSep :: string
  PreStackSep :: string
  StackElemSep :: string
  ErrorSep :: string
  FieldFormatFunc :: "Fields \<Rightarrow> string"

function natDigits :: "nat \<Rightarrow> string" where
  "natDigits n =
     (if n < 10 then [char_of (48 + n)] else natDigits (n div 10) @ [char_of (48 + n mod 10)])"
  by pat_completeness auto
termination
  by (relation "measure id") auto

definition Itoa :: "int \<Rightarrow> string" where
  "Itoa i = (if i < 0 then CHR ''-'' # natDigits (nat (- i)) else natDigits (nat i))"

definition Repeat :: "string \<Rightarrow> nat \<Rightarrow> string" where
  "Repeat s count = concat (replicate count s)"

definition DefaultLocationFormatFunc :: "Location \<Rightarrow> string" where
  "DefaultLocationFormatFunc frame =
     Filename frame @ '':'' @ Itoa (Line frame) @ ''('' @ FuncName frame @ '')''"

definition DefaultFieldFormat :: "fmt \<Rightarrow> Fields \<Rightarrow> string" where
  "DefaultFieldFormat host flds = SprintFields host flds"

definition NewDefaultStringFormat :: "fmt \<Rightarrow> FormatOptions \<Rightarrow> StringFormat" where
  "NewDefaultStringFormat host options =
     (let format = \<lparr>Options = options, MsgStackSep = [], PreStackSep = [], StackElemSep = [],
                     ErrorSep = [], FieldFormatFunc = DefaultFieldFormat host\<rparr>
      in if WithTrace options
         then format\<lparr>MsgStackSep := [CHR 0x0A], PreStackSep := [CHR 0x09],
                     StackElemSep := [CHR 0x0A], ErrorSep := [CHR 0x0A]\<rparr>
         else format\<lparr>ErrorSep := '': ''\<rparr>)"

text \<open>The loop that prints the frames before the frame of a link.\<close>

function skipFrames ::
  "StringFormat \<Rightarrow> nat \<Rightarrow> Location list \<Rightarrow> WrapLink \<Rightarrow> string \<times> nat \<Rightarrow> string \<times> nat" where
  "skipFrames format level locs link (str, stackIndex) =
     (if int stackIndex < int (length locs) - 1 \<and> locs ! stackIndex \<noteq> CallerLocation link
      then skipFrames format level locs link
             (str @ Repeat (PreStackSep format) level
                  @ LocationFormatFunc (Options format) (locs ! stackIndex)
                  @ StackElemSep format,
              stackIndex + 1)
      else (str, stackIndex))"
  by pat_completeness auto
termination
  by (relation "measure (\<lambda>(format, level, locs, link, str, i). length locs - i)") auto

text \<open>The loop over the links. \<^verbatim>\<open>hierarchy.CallerLocations[stackIndex-1]\<close> is read
  without a bound check.\<close>

fun renderLinks ::
  "fmt \<Rightarrow> StringFormat \<Rightarrow> nat \<Rightarrow> Location list \<Rightarrow> WrapLink list \<Rightarrow> string \<times> nat
     \<Rightarrow> panic + (string \<times> nat)" where
  "renderLinks host format level locs [] (str, stackIndex) = Inr (str, stackIndex)"
| "renderLinks host format level locs (link # links) (str, stackIndex) =
     (case (if WithTrace (Options format)
            then (if stackIndex \<noteq> 0 \<and> \<not> stackIndex - 1 < length locs then Inl IndexOutOfRange
                  else if stackIndex = 0 \<or> locs ! (stackIndex - 1) \<noteq> CallerLocation link
                  then (case skipFrames format level locs link (str, stackIndex) of
                          (str, stackIndex) \<Rightarrow>
                            Inr (str @ Repeat (PreStackSep format) level
                                     @ LocationFormatFunc (Options format) (CallerLocation link)
                                     @ MsgStackSep format,
                                 stackIndex + 1))
                  else Inr (str, stackIndex))
            else Inr (str, stackIndex)) of
        Inl p \<Rightarrow> Inl p
      | Inr (str, stackIndex) \<Rightarrow>
          (let str = str @ Sprintf host (Msg link) (MsgArgs link);
               str = (if length (Fields link) \<noteq> 0
                      then str @ Repeat (PreStackSep format) (level + 1)
                               @ FieldFormatFunc format (Fields link)
                      else str);
               str = str @ ErrorSep format
           in renderLinks host format level locs links (str, stackIndex)))"

text \<open>The loop that prints the frames after the last link.\<close>

function restFrames :: "StringFormat \<Rightarrow> nat \<Rightarrow> Location list \<Rightarrow> string \<times> nat \<Rightarrow> string" where
  "restFrames format level locs (str, stackIndex) =
     (if stackIndex < length locs
      then restFrames format level locs
             (str @ Repeat (PreStackSep format) level
                  @ LocationFormatFunc (Options format) (locs ! stackIndex)
                  @ StackElemSep format,
              stackIndex + 1)
      else str)"
  by pat_completeness auto
termination
  by (relation "measure (\<lambda>(format, level, locs, str, i). length locs - i)") auto

text \<open>
  \<^verbatim>\<open>toCustomString\<close>, with its loop over the sub-hierarchies as \<open>subStrings\<close>
  (\<open>i\<close> is the loop index, \<open>str\<close> the string so far). Printing the external error
  can come back to \<^verbatim>\<open>ToString\<close>, that is to \<^verbatim>\<open>unpack\<close> and \<^verbatim>\<open>toCustomString\<close>
  with the default format without trace at level 1, and nothing bounds how often; so
  the rendering carries fuel as \<^verbatim>\<open>unpack\<close> does, and each such call takes one unit.
\<close>

fun toCustomString ::
    "nat \<Rightarrow> symtab \<Rightarrow> store \<Rightarrow> fmt \<Rightarrow> UnpackHierarchy \<Rightarrow> StringFormat \<Rightarrow> nat
       \<Rightarrow> (panic + string) option"
  and subStrings ::
    "nat \<Rightarrow> symtab \<Rightarrow> store \<Rightarrow> fmt \<Rightarrow> UnpackHierarchy list \<Rightarrow> StringFormat \<Rightarrow> nat \<Rightarrow> nat
       \<Rightarrow> string \<Rightarrow> (panic + string) option" where
  "toCustomString fuel st h host (UnpackHierarchy ext locs links subs) format level =
     (case renderLinks host format level locs links ([], 0) of
        Inl p \<Rightarrow> Some (Inl p)
      | Inr (str, stackIndex) \<Rightarrow>
          (let str = (if WithTrace (Options format)
                      then restFrames format level locs (str, stackIndex) else str)
           in case (case ext of
                      None \<Rightarrow> Some str
                    | Some e \<Rightarrow>
                        (case Sprint host
                                (\<lambda>e. case fuel of
                                        0 \<Rightarrow> None
                                      | Suc fuel' \<Rightarrow>
                                          (case unpack fuel' st h (Some e) 0 of
                                             None \<Rightarrow> None
                                           | Some (Inl p) \<Rightarrow> Some (Inl p)
                                           | Some (Inr frames) \<Rightarrow>
                                               toCustomString fuel' st h host frames
                                                 (NewDefaultStringFormat host
                                                    \<lparr>LocationFormatFunc = DefaultLocationFormatFunc,
                                                     WithTrace = False\<rparr>)
                                                 1))
                                e of
                           None \<Rightarrow> None
                         | Some s \<Rightarrow>
                             Some (str @ Repeat (PreStackSep format) level @ s
                                       @ ErrorSep format))) of
                  None \<Rightarrow> None
                | Some str \<Rightarrow> subStrings fuel st h host subs format level 0 str))"
| "subStrings fuel st h host [] format level i str = Some (Inr str)"
| "subStrings fuel st h host (subHierarchy # subs) format level i str =
     (let str = (if WithTrace (Options format)
                 then str @ Repeat (PreStackSep format) level @ ''#'' @ Itoa (int i)
                          @ StackElemSep format
                 else str)
      in case toCustomString fuel st h host subHierarchy format (level + 1) of
           None \<Rightarrow> None
         | Some (Inl p) \<Rightarrow> Some (Inl p)
         | Some (Inr s) \<Rightarrow> subStrings fuel st h host subs format level (i + 1) (str @ s))"

definition ToCustomString ::
  "nat \<Rightarrow> symtab \<Rightarrow> store \<Rightarrow> fmt \<Rightarrow> error option \<Rightarrow> StringFormat \<Rightarrow> (panic + string) option" where
  "ToCustomString fuel st h host err format =
     (case unpack fuel st h err 0 of
        None \<Rightarrow> None
      | Some (Inl p) \<Rightarrow> Some (Inl p)
      | Some (Inr frames) \<Rightarrow> toCustomString fuel st h host frames format 1)"

definition ToString ::
  "nat \<Rightarrow> symtab \<Rightarrow> store \<Rightarrow> fmt \<Rightarrow> error option \<Rightarrow> bool \<Rightarrow> (panic + string) option" where
  "ToString fuel st h host err withTrace =
     ToCustomString fuel st h host err
       (NewDefaultStringFormat host
          \<lparr>LocationFormatFunc = DefaultLocationFormatFunc, WithTrace = withTrace\<rparr>)"

section \<open>Notions used in the statements\<close>

text \<open>
  What is left of a hierarchy when every location is dropped (the caller locations and
  the location of each link): the messages, arguments and fields of the links, the text
  of a foreign external error, the sub-hierarchies. \<open>plainText\<close> is the text made of
  these only: the interpolated message of each link with its field dump, then the text
  of the external error, each followed by the separator, then the same for each
  sub-hierarchy; this is the account of rendering without trace to compare with the
  code. \<open>joinWith\<close> puts the separator between the items and not after the last, which
  is what joining by a separator says. \<open>foreignOnly\<close>: every external error of the
  hierarchy is a foreign error. \<open>anchorless h\<close>: \<^verbatim>\<open>Cause\<close> finds no anchor for any
  external error of the hierarchy.
\<close>

datatype PlainHierarchy =
  PlainHierarchy (plainExternal: "string option")
    (plainLinks: "(string \<times> iface list \<times> Fields) list") (plainSubs: "PlainHierarchy list")

fun dropLocations :: "UnpackHierarchy \<Rightarrow> PlainHierarchy" where
  "dropLocations (UnpackHierarchy ext locs links subs) =
     PlainHierarchy (case ext of None \<Rightarrow> None | Some e \<Rightarrow> foreignText e)
       (map (\<lambda>link. (Msg link, MsgArgs link, Fields link)) links)
       (map dropLocations subs)"

fun plainText ::
  "fmt \<Rightarrow> string \<Rightarrow> string \<Rightarrow> (Fields \<Rightarrow> string) \<Rightarrow> PlainHierarchy \<Rightarrow> nat \<Rightarrow> string" where
  "plainText host pre sep fieldFormat (PlainHierarchy ext links subs) level =
     concat (map (\<lambda>(m, args, flds).
                    Sprintf host m args
                    @ (if flds \<noteq> [] then Repeat pre (level + 1) @ fieldFormat flds else [])
                    @ sep) links)
     @ (case ext of None \<Rightarrow> [] | Some s \<Rightarrow> Repeat pre level @ s @ sep)
     @ concat (map (\<lambda>sub. plainText host pre sep fieldFormat sub (level + 1)) subs)"


fun foreignOnly :: "UnpackHierarchy \<Rightarrow> bool" where
  "foreignOnly (UnpackHierarchy ext locs links subs) =
     ((case ext of None \<Rightarrow> True | Some e \<Rightarrow> foreignText e \<noteq> None) \<and> list_all foreignOnly subs)"

fun anchorless :: "store \<Rightarrow> UnpackHierarchy \<Rightarrow> bool" where
  "anchorless h (UnpackHierarchy ext locs links subs) =
     (Cause h ext = None \<and> list_all (anchorless h) subs)"

text \<open>
  The reconstructions of the causes of an anchor, as \<^verbatim>\<open>unpack\<close> makes them after its
  frame walk, with the second entry of the capture as their floor.
\<close>

definition causeResults ::
  "nat \<Rightarrow> symtab \<Rightarrow> store \<Rightarrow> error \<Rightarrow> uintptr list \<Rightarrow> (panic + UnpackHierarchy list) option" where
  "causeResults fuel st h fullStackErr cs =
     (case Unwrap fullStackErr of
        Some e \<Rightarrow>
          (if length cs \<le> 1 then Some (Inl IndexOutOfRange)
           else collect [unpack fuel st h e (cs ! 1)])
      | None \<Rightarrow>
          (case UnwrapMany h fullStackErr of
             Some es \<Rightarrow>
               (if es = [] then Some (Inr [])
                else if length cs \<le> 1 then Some (Inl IndexOutOfRange)
                else collect (map (\<lambda>e. unpack fuel st h e (cs ! 1)) es))
           | None \<Rightarrow> Some (Inr [])))"

text \<open>
  The error values that the construction surface builds. \<open>reach h P\<close>: after some
  calls of \<^verbatim>\<open>ErrorDepths\<close>, \<^verbatim>\<open>WrapDepth\<close>, \<^verbatim>\<open>WrapDepths\<close> and
  \<^verbatim>\<open>JoinDepth\<close> (the other constructors are these at a given depth) the store is
  \<open>h\<close> and \<open>P\<close> holds the errors returned so far. An argument of a call is nil,
  an error returned before, or a foreign error around one of these. In each call the
  stack is deeper than the frames skipped, so that the capture is not empty.
\<close>

inductive argument :: "error set \<Rightarrow> error option \<Rightarrow> bool" for P :: "error set" where
  nil: "argument P None"
| built: "e \<in> P \<Longrightarrow> argument P (Some e)"
| external: "argument P (Some (External s))"
| externalWrap: "argument P c \<Longrightarrow> argument P (Some (ExternalWrap s c))"

inductive reach :: "store \<Rightarrow> error set \<Rightarrow> bool" where
  start: "reach [] {}"
| errorDepths:
    "reach h P \<Longrightarrow> skip + 3 < length stack \<Longrightarrow> ErrorDepths stack skip flds m args = Some e
       \<Longrightarrow> reach h (insert e P)"
| wrapDepth:
    "reach h P \<Longrightarrow> argument P c \<Longrightarrow> skip + 3 < length stack
       \<Longrightarrow> WrapDepth h stack skip c = Some e \<Longrightarrow> reach h (insert e P)"
| wrapDepths:
    "reach h P \<Longrightarrow> argument P c \<Longrightarrow> skip + 3 < length stack
       \<Longrightarrow> WrapDepths h stack skip c flds m args = Some e \<Longrightarrow> reach h (insert e P)"
| joinDepth:
    "reach h P \<Longrightarrow> \<forall>c \<in> set es. argument P c \<Longrightarrow> skip + 3 < length stack
       \<Longrightarrow> JoinDepth h stack skip es = (r, h') \<Longrightarrow> reach h' (P \<union> set_option r)"

text \<open>
  The frame walk in terms of lists. \<open>annotationsBelow err\<close>: the annotations that
  the cursor of the frame walk meets from \<open>err\<close> on, outermost first (the annotations
  of the wrap errors and root errors along the cause chain, up to the first error that is
  neither). \<open>matched ds fs\<close>: the annotations spliced when the frames \<open>fs\<close> are
  compared in turn with the \<^verbatim>\<open>callerCaller\<close> of the first annotation left; the walk
  from the deepest frame compares the frames of the capture but the first, deepest
  first. \<open>hasContent\<close>: the annotation carries a message, arguments or fields, so it
  gives a link, \<open>linkOf\<close>. \<open>cursorOk\<close>: the cursor is nil or has an annotation.
  \<open>wrapCalls h calls err\<close>: the calls of \<^verbatim>\<open>WrapDepths\<close> one over the other, the
  outermost first in \<open>calls\<close>, the innermost on \<open>err\<close>; \<open>annotationOf\<close> is the
  annotation that a call makes when its cause has an anchor.
\<close>

fun annotationsBelow :: "error option \<Rightarrow> AdditionalInformation list" where
  "annotationsBelow None = []"
| "annotationsBelow (Some (RootError cs info c)) =
     (case info of None \<Rightarrow> [] | Some d \<Rightarrow> [d]) @ annotationsBelow c"
| "annotationsBelow (Some (WrapError info c)) =
     (case info of None \<Rightarrow> [] | Some d \<Rightarrow> [d]) @ annotationsBelow c"
| "annotationsBelow (Some (JoinError a)) = []"
| "annotationsBelow (Some (External s)) = []"
| "annotationsBelow (Some (ExternalWrap s c)) = []"

fun matched :: "AdditionalInformation list \<Rightarrow> uintptr list \<Rightarrow> AdditionalInformation list" where
  "matched ds [] = []"
| "matched ds (f # fs) =
     takeWhile (\<lambda>d. callerCaller d = f) ds
     @ matched (dropWhile (\<lambda>d. callerCaller d = f) ds) fs"

definition hasContent :: "AdditionalInformation \<Rightarrow> bool" where
  "hasContent d \<longleftrightarrow> msg d \<noteq> [] \<or> msgArgs d \<noteq> [] \<or> fields' d \<noteq> []"

definition linkOf :: "symtab \<Rightarrow> AdditionalInformation \<Rightarrow> WrapLink" where
  "linkOf st d = \<lparr>Msg = msg d, MsgArgs = msgArgs d, Fields = fields' d,
                  CallerLocation = getLocation st (caller d)\<rparr>"

definition cursorOk :: "error option \<Rightarrow> bool" where
  "cursorOk x = (case x of None \<Rightarrow> True
                 | Some e \<Rightarrow> isStackFrameError e \<and> GetAdditionalInformation e \<noteq> None)"

type_synonym wrapCall = "uintptr list \<times> nat \<times> Fields \<times> string \<times> iface list"

fun wrapCalls :: "store \<Rightarrow> wrapCall list \<Rightarrow> error option \<Rightarrow> error option" where
  "wrapCalls h [] err = err"
| "wrapCalls h ((stack, skip, flds, m, args) # calls) err =
     WrapDepths h stack skip (wrapCalls h calls err) flds m args"

fun annotationOf :: "wrapCall \<Rightarrow> AdditionalInformation" where
  "annotationOf (stack, skip, flds, m, args) =
     (NewAdditionalInformation stack (skip + 3))\<lparr>fields' := flds, msg := m, msgArgs := args\<rparr>"

section \<open>Basic facts\<close>

declare scanParentPC.simps [simp del]
declare spliceLinks.simps [simp del]
declare frameWalk.simps [simp del]
declare skipFrames.simps [simp del]
declare restFrames.simps [simp del]
declare natDigits.simps [simp del]

lemma scanParentPC_absent:
  "- 1 \<le> i \<Longrightarrow> i < int (length cs) \<Longrightarrow> parentPC \<notin> set cs
     \<Longrightarrow> scanParentPC cs parentPC i = - 1"
proof (induction cs parentPC i rule: scanParentPC.induct)
  case (1 cs parentPC i)
  show ?case
  proof (cases "i \<ge> 0")
    case True
    with 1 have "cs ! nat i \<noteq> parentPC" by (metis nat_less_iff nth_mem)
    with 1 True show ?thesis by (subst scanParentPC.simps) simp
  next
    case False
    with 1 show ?thesis by (subst scanParentPC.simps) simp
  qed
qed

lemma frameWalk_negative: "i < 0 \<Longrightarrow> frameWalk st cs i cursor hier = Inr hier"
  by (subst frameWalk.simps) simp

lemma spliceLinks_deepest:
  "spliceLinks st cs (int (length cs) - 1) cursor hier = Inr (cursor, hier)"
  by (subst spliceLinks.simps) (simp split: option.splits)

subsection \<open>The loops of \<open>JoinDepth\<close>\<close>

lemma countLive_filter: "countLive es = length (filter (\<lambda>e. e \<noteq> None) es)"
proof -
  have "foldl (\<lambda>n err. if err \<noteq> None then n + 1 else n) n es
          = n + length (filter (\<lambda>e. e \<noteq> None) es)" for n :: nat
    by (induction es arbitrary: n) auto
  then show ?thesis by (simp add: countLive_def)
qed

lemma collectLive_filter: "collectLive es = filter (\<lambda>e. e \<noteq> None) es"
proof -
  have "foldl (\<lambda>acc err. if err \<noteq> None then acc @ [err] else acc) acc es
          = acc @ filter (\<lambda>e. e \<noteq> None) es" for acc :: "error option list"
    by (induction es arbitrary: acc) auto
  then show ?thesis by (simp add: collectLive_def)
qed

lemma appendLive_filter:
  "a < length h \<Longrightarrow>
     appendLive h a es = h[a := (h ! a)\<lparr>errs := errs (h ! a) @ filter (\<lambda>e. e \<noteq> None) es\<rparr>]"
proof -
  have "a < length h \<Longrightarrow>
        foldl (\<lambda>h err. if err \<noteq> None then appendErr h a err else h) h es
          = h[a := (h ! a)\<lparr>errs := errs (h ! a) @ filter (\<lambda>e. e \<noteq> None) es\<rparr>]" for h
    by (induction es arbitrary: h) (auto simp: appendErr_def deref_def)
  then show "a < length h \<Longrightarrow> ?thesis" by (simp add: appendLive_def)
qed

lemma find_filter: "find P xs = (case filter P xs of [] \<Rightarrow> None | x # _ \<Rightarrow> Some x)"
  by (induction xs) auto

lemma JoinDepth_is_joinMany:
  "2 \<le> length (filter (\<lambda>e. e \<noteq> None) es) \<Longrightarrow>
     JoinDepth h stack skip es = joinMany h stack skip es"
proof -
  assume "2 \<le> length (filter (\<lambda>e. e \<noteq> None) es)"
  then have "countLive es \<noteq> 0" and "countLive es \<noteq> 1"
    unfolding countLive_filter by linarith+
  then show ?thesis by (simp add: JoinDepth_def)
qed

lemma JoinDepth_append:
  "2 \<le> length (filter (\<lambda>e. e \<noteq> None) (Some (JoinError a) # rest)) \<Longrightarrow> a < length h \<Longrightarrow>
     JoinDepth h stack skip (Some (JoinError a) # rest) =
       (Some (JoinError a),
        h[a := (h ! a)\<lparr>errs := errs (h ! a) @ filter (\<lambda>e. e \<noteq> None) rest\<rparr>])"
  by (simp only: JoinDepth_is_joinMany) (simp add: joinMany_def appendLive_filter)

lemma JoinDepth_fresh:
  "2 \<le> length (filter (\<lambda>e. e \<noteq> None) es) \<Longrightarrow> \<forall>a rest. es \<noteq> Some (JoinError a) # rest \<Longrightarrow>
     JoinDepth h stack skip es =
       (Some (JoinError (length h)),
        h @ [\<lparr>callers = NewCallers stack (skip + 3), errs = filter (\<lambda>e. e \<noteq> None) es\<rparr>])"
  by (simp only: JoinDepth_is_joinMany)
     (auto simp: joinMany_def collectLive_filter split: list.splits option.splits error.splits)

lemma Join_append_shape:
  assumes "\<forall>a. e1 \<noteq> JoinError a"
  shows "(case Join h s1 [Some e1, Some e2] of (j, h1) \<Rightarrow>
           (case Join h1 s2 [j, Some e3] of (j', h2) \<Rightarrow>
              j' = j \<and> errs (deref h2 (length h)) = [Some e1, Some e2, Some e3])) \<and>
         (case Join h s3 [Some e1, Some e2, Some e3] of (j, h3) \<Rightarrow>
            errs (deref h3 (length h)) = [Some e1, Some e2, Some e3])"
  using assms
  by (simp add: Join_def JoinDepth_fresh JoinDepth_append deref_def)

subsection \<open>A join that holds itself\<close>

text \<open>\<^verbatim>\<open>Join(j, j)\<close> on a join \<open>j\<close> appends \<open>j\<close> to its own causes, and the
  reconstruction of such a join returns no hierarchy, whatever the fuel: in Go the
  recursion of \<^verbatim>\<open>unpack\<close> does not end.\<close>

lemma self_join_store:
  "JoinDepth [\<lparr>callers = cs, errs = es\<rparr>] stack skip [Some (JoinError 0), Some (JoinError 0)]
     = (Some (JoinError 0), [\<lparr>callers = cs, errs = es @ [Some (JoinError 0)]\<rparr>])"
  by (simp add: JoinDepth_append)

lemma self_join_never_returns:
  assumes "2 \<le> length cs"
  shows "unpack fuel st [\<lparr>callers = cs, errs = es @ [Some (JoinError 0)]\<rparr>] (Some (JoinError 0))
           parentPC \<noteq> Some (Inr hierarchy)"
proof (induction fuel arbitrary: parentPC hierarchy)
  case 0
  then show ?case by simp
next
  case (Suc fuel)
  let ?h = "[\<lparr>callers = cs, errs = es @ [Some (JoinError 0)]\<rparr>]"
  have ne: "cs \<noteq> []" using assms by auto
  have no: "collect (map (\<lambda>e. unpack fuel st ?h e (cs ! 1)) (xs @ [Some (JoinError 0)]))
              \<noteq> Some (Inr subs)" for xs subs
  proof (induction xs arbitrary: subs)
    case Nil
    then show ?case using Suc [of "cs ! 1"] by (auto split: option.splits sum.splits)
  next
    case (Cons x xs)
    then show ?case by (auto split: option.splits sum.splits)
  qed
  show ?case
    using assms ne no [of es]
    by (auto simp: deref_def split: option.splits sum.splits)
qed

subsection \<open>The frame walk without annotations\<close>

lemma spliceLinks_None: "spliceLinks st cs i None hier = Inr (None, hier)"
  by (subst spliceLinks.simps) simp

lemma frameWalk_None:
  "- 1 \<le> i \<Longrightarrow> i < int (length cs) \<Longrightarrow>
     frameWalk st cs i None hier =
       Inr (foldl addCallerLocation hier (map (getLocation st) (rev (take (nat (i + 1)) cs))))"
proof (induction "nat (i + 1)" arbitrary: i hier)
  case 0
  then have "i = - 1" by simp
  then show ?case by (simp add: frameWalk_negative)
next
  case (Suc n)
  then have i: "0 \<le> i" "nat i < length cs" "nat (i + 1) = Suc (nat i)" "n = nat (i - 1 + 1)"
    by auto
  have "frameWalk st cs i None hier =
          frameWalk st cs (i - 1) None (addCallerLocation hier (getLocation st (cs ! nat i)))"
    using i(1) by (subst frameWalk.simps) (simp add: spliceLinks_None)
  also have "\<dots> = Inr (foldl addCallerLocation (addCallerLocation hier (getLocation st (cs ! nat i)))
                       (map (getLocation st) (rev (take (nat (i - 1 + 1)) cs))))"
    using Suc.hyps(1) [OF i(4)] Suc.prems i by simp
  finally show ?case
    using i by (simp add: take_Suc_conv_app_nth)
qed

lemma addCallerLocation_fields [simp]:
  "ErrExternal (addCallerLocation hier loc) = ErrExternal hier"
  "Links (addCallerLocation hier loc) = Links hier"
  "SubHierarchies (addCallerLocation hier loc) = SubHierarchies hier"
  by (simp_all add: addCallerLocation_def)

lemma foldl_addCallerLocation_fields [simp]:
  "ErrExternal (foldl addCallerLocation hier locs) = ErrExternal hier"
  "Links (foldl addCallerLocation hier locs) = Links hier"
  "SubHierarchies (foldl addCallerLocation hier locs) = SubHierarchies hier"
  by (induction locs arbitrary: hier) simp_all

subsection \<open>The frame walk with annotations\<close>

lemma next_annotations:
  "Unwrap e = Some c \<Longrightarrow>
     cursorOk (nextStackFrameError (Some e)) \<and>
     annotationsBelow (nextStackFrameError (Some e)) = annotationsBelow c"
proof (induction "Some e" arbitrary: e c rule: nextStackFrameError.induct)
  case (2 e)
  show ?case
  proof (cases c)
    case None
    with 2 show ?thesis by (simp add: cursorOk_def)
  next
    case (Some e')
    show ?thesis
    proof (cases "isStackFrameError e'")
      case False
      with 2 Some show ?thesis by (cases e') (simp_all add: cursorOk_def)
    next
      case sfe: True
      show ?thesis
      proof (cases "GetAdditionalInformation e'")
        case (Some d)
        with 2 \<open>c = Some e'\<close> sfe show ?thesis by (cases e') (simp_all add: cursorOk_def)
      next
        case None
        from sfe obtain c' where u: "Unwrap e' = Some c'" by (cases e') auto
        from 2(1) [OF 2(2) \<open>c = Some e'\<close> _ _ u] sfe None
        have "cursorOk (nextStackFrameError (Some e')) \<and>
              annotationsBelow (nextStackFrameError (Some e')) = annotationsBelow c'"
          by simp
        moreover have "annotationsBelow (Some e') = annotationsBelow c'"
          using sfe None u by (cases e') auto
        ultimately show ?thesis using 2(2) \<open>c = Some e'\<close> sfe None by simp
      qed
    qed
  qed
qed


lemma first_annotations:
  "cursorOk (firstStackFrameError err) \<and>
   annotationsBelow (firstStackFrameError err) = annotationsBelow err"
proof (cases err)
  case None
  then show ?thesis by (simp add: firstStackFrameError_def cursorOk_def)
next
  case (Some e)
  show ?thesis
  proof (cases "isStackFrameError e")
    case False
    with Some show ?thesis by (cases e) (simp_all add: firstStackFrameError_def cursorOk_def)
  next
    case sfe: True
    then obtain c where u: "Unwrap e = Some c" by (cases e) auto
    show ?thesis
    proof (cases "GetAdditionalInformation e")
      case None
      moreover have "annotationsBelow (Some e) = annotationsBelow c"
        using sfe None u by (cases e) auto
      ultimately show ?thesis
        using Some sfe next_annotations [OF u]
        by (simp add: firstStackFrameError_def del: nextStackFrameError.simps)
    next
      case (Some d)
      with \<open>err = Some e\<close> sfe show ?thesis
        by (simp add: firstStackFrameError_def cursorOk_def)
    qed
  qed
qed

lemma cursor_step:
  assumes "cursorOk (Some e)" and "GetAdditionalInformation e = Some d"
  shows "cursorOk (nextStackFrameError (Some e)) \<and>
         annotationsBelow (Some e) = d # annotationsBelow (nextStackFrameError (Some e))"
proof -
  from assms(1) obtain c where u: "Unwrap e = Some c"
    by (cases e) (auto simp: cursorOk_def)
  have "annotationsBelow (Some e) = d # annotationsBelow c"
    using assms u by (cases e) (auto simp: cursorOk_def)
  with next_annotations [OF u] show ?thesis by simp
qed

lemma spliceLinks_spec:
  "cursorOk cursor \<Longrightarrow> i \<noteq> int (length cs) - 1 \<Longrightarrow>
     \<exists>cursor' hier'.
       spliceLinks st cs i cursor hier = Inr (cursor', hier') \<and> cursorOk cursor' \<and>
       annotationsBelow cursor' =
         dropWhile (\<lambda>d. callerCaller d = cs ! nat (i + 1)) (annotationsBelow cursor) \<and>
       Links hier' =
         Links hier @ map (linkOf st) (filter hasContent
           (takeWhile (\<lambda>d. callerCaller d = cs ! nat (i + 1)) (annotationsBelow cursor))) \<and>
       ErrExternal hier' = ErrExternal hier \<and> SubHierarchies hier' = SubHierarchies hier"
proof (induction st cs i cursor hier rule: spliceLinks.induct)
  case (1 st cs i cursor hier)
  show ?case
  proof (cases cursor)
    case None
    then show ?thesis by (subst spliceLinks.simps) (simp add: cursorOk_def)
  next
    case (Some e)
    with "1.prems"(1) obtain d where d: "GetAdditionalInformation e = Some d"
      by (auto simp: cursorOk_def)
    note step = cursor_step [OF "1.prems"(1) [unfolded Some] d]
    show ?thesis
    proof (cases "cs ! nat (i + 1) = callerCaller d")
      case False
      then show ?thesis
        using Some d "1.prems" step
        by (subst spliceLinks.simps) (auto simp del: nextStackFrameError.simps)
    next
      case True
      let ?loc = "getLocation st (caller d)"
      let ?h1 = "if length (msg d) \<noteq> 0 \<or> length (msgArgs d) \<noteq> 0 \<or> length (fields' d) \<noteq> 0
                 then UnpackHierarchy (ErrExternal hier) (CallerLocations hier)
                        (Links hier @ [\<lparr>Msg = msg d, MsgArgs = msgArgs d, Fields = fields' d,
                                        CallerLocation = ?loc\<rparr>])
                        (SubHierarchies hier)
                 else hier"
      let ?h2 = "addCallerLocation ?h1 ?loc"
      have unfold: "spliceLinks st cs i cursor hier =
                      spliceLinks st cs i (nextStackFrameError cursor) ?h2"
        using Some d True "1.prems"(2)
        by (subst spliceLinks.simps) (simp add: Let_def del: nextStackFrameError.simps)
      from "1.IH" [OF Some "1.prems"(2) d True refl refl refl, simplified Some] step "1.prems"(2)
      obtain cursor' hier' where
        r: "spliceLinks st cs i (nextStackFrameError (Some e)) ?h2 = Inr (cursor', hier')"
          "cursorOk cursor'"
          "annotationsBelow cursor' =
             dropWhile (\<lambda>d. callerCaller d = cs ! nat (i + 1))
               (annotationsBelow (nextStackFrameError (Some e)))"
          "Links hier' =
             Links ?h2 @ map (linkOf st) (filter hasContent
               (takeWhile (\<lambda>d. callerCaller d = cs ! nat (i + 1))
                  (annotationsBelow (nextStackFrameError (Some e)))))"
          "ErrExternal hier' = ErrExternal ?h2" "SubHierarchies hier' = SubHierarchies ?h2"
        by blast
      have links: "Links ?h2 = Links hier @ map (linkOf st) (filter hasContent [d])"
        by (simp add: hasContent_def linkOf_def)
      have ext: "ErrExternal ?h2 = ErrExternal hier" "SubHierarchies ?h2 = SubHierarchies hier"
        by simp_all
      have a: "annotationsBelow cursor = d # annotationsBelow (nextStackFrameError (Some e))"
        using step Some by simp
      have eq: "spliceLinks st cs i cursor hier = Inr (cursor', hier')"
        using unfold r(1) Some by (simp only:)
      have D: "annotationsBelow cursor' =
                 dropWhile (\<lambda>d. callerCaller d = cs ! nat (i + 1)) (annotationsBelow cursor)"
        using r(3) True by (simp only: a) simp
      have L: "Links hier' =
                 Links hier @ map (linkOf st) (filter hasContent
                   (takeWhile (\<lambda>d. callerCaller d = cs ! nat (i + 1)) (annotationsBelow cursor)))"
        using r(4) [unfolded links] True by (simp only: a) simp
      have E: "ErrExternal hier' = ErrExternal hier" "SubHierarchies hier' = SubHierarchies hier"
        using r(5,6) ext by (simp_all only:)
      show ?thesis
        using eq r(2) D L E by blast
    qed
  qed
qed


lemma frameWalk_spec:
  "cursorOk cursor \<Longrightarrow> - 1 \<le> i \<Longrightarrow> i < int (length cs) \<Longrightarrow>
     \<exists>hier'.
       frameWalk st cs i cursor hier = Inr hier' \<and>
       Links hier' =
         Links hier @ map (linkOf st) (filter hasContent
           (matched (annotationsBelow cursor) (rev (take (nat (i + 1)) (tl cs))))) \<and>
       ErrExternal hier' = ErrExternal hier \<and> SubHierarchies hier' = SubHierarchies hier"
proof (induction "nat (i + 1)" arbitrary: i cursor hier)
  case 0
  then have "i = - 1" by simp
  then show ?case by (simp add: frameWalk_negative)
next
  case (Suc n)
  then have i: "0 \<le> i" "nat i < length cs" "n = nat (i - 1 + 1)" "- 1 \<le> i - 1"
    "i - 1 < int (length cs)" "nat (i - 1 + 1) = nat i" "nat (i + 1) = Suc (nat i)"
    by auto
  let ?loc = "getLocation st (cs ! nat i)"
  show ?case
  proof (cases "i = int (length cs) - 1")
    case True
    have walk: "frameWalk st cs i cursor hier =
                  frameWalk st cs (i - 1) cursor (addCallerLocation hier ?loc)"
      using i(1) spliceLinks_deepest [of st cs cursor hier] True
      by (subst frameWalk.simps) simp
    have frames: "take (nat (i + 1)) (tl cs) = take (nat i) (tl cs)"
      using True by simp
    from Suc.hyps(1) [OF i(3) Suc.prems(1) i(4,5), of "addCallerLocation hier ?loc"]
    show ?thesis
      unfolding walk frames i(6) by simp
  next
    case False
    from spliceLinks_spec [OF Suc.prems(1) False, of st hier]
    obtain cursor' hier1 where
      s: "spliceLinks st cs i cursor hier = Inr (cursor', hier1)" "cursorOk cursor'"
        "annotationsBelow cursor' =
           dropWhile (\<lambda>d. callerCaller d = cs ! nat (i + 1)) (annotationsBelow cursor)"
        "Links hier1 =
           Links hier @ map (linkOf st) (filter hasContent
             (takeWhile (\<lambda>d. callerCaller d = cs ! nat (i + 1)) (annotationsBelow cursor)))"
        "ErrExternal hier1 = ErrExternal hier" "SubHierarchies hier1 = SubHierarchies hier"
      by blast
    have walk: "frameWalk st cs i cursor hier =
                  frameWalk st cs (i - 1) cursor' (addCallerLocation hier1 ?loc)"
      using i(1) s(1) by (subst frameWalk.simps) simp
    have "nat i < length (tl cs)" using False i Suc.prems by auto
    then have frames: "rev (take (nat (i + 1)) (tl cs)) =
                         cs ! nat (i + 1) # rev (take (nat i) (tl cs))"
      using i by (simp add: take_Suc_conv_app_nth nth_tl)
    from Suc.hyps(1) [OF i(3) s(2) i(4,5), of "addCallerLocation hier1 ?loc"]
    show ?thesis
      unfolding walk frames i(6) using s(3-6) by simp
  qed
qed

lemma wrapCalls_chain:
  assumes "Cause h err = Some anchor"
  shows "Cause h (wrapCalls h calls err) = Some anchor \<and>
         annotationsBelow (wrapCalls h calls err) = map annotationOf calls @ annotationsBelow err"
proof (induction calls)
  case Nil
  with assms show ?case by simp
next
  case (Cons call calls)
  obtain stack skip flds m args where call: "call = (stack, skip, flds, m, args)"
    by (cases call)
  from Cons show ?case
    by (simp add: call WrapDepths_def Let_def)
qed

lemma matched_prefix: "\<exists>rest. ds = matched ds fs @ rest"
proof (induction fs arbitrary: ds)
  case Nil
  then show ?case by simp
next
  case (Cons f fs)
  from Cons [of "dropWhile (\<lambda>d. callerCaller d = f) ds"] obtain rest where
    "dropWhile (\<lambda>d. callerCaller d = f) ds
       = matched (dropWhile (\<lambda>d. callerCaller d = f) ds) fs @ rest"
    by blast
  then have "ds = matched ds (f # fs) @ rest"
    by (metis append.assoc matched.simps(2) takeWhile_dropWhile_id)
  then show ?case by blast
qed

subsection \<open>Anchors of constructed errors\<close>

lemma Cause_result:
  "Cause h x = Some y \<Longrightarrow>
     \<exists>cs. Callers h y = Some cs \<and> cs \<noteq> [] \<and>
          ((\<exists>info c. y = RootError cs info c) \<or> (\<exists>a. y = JoinError a))"
  by (induction h x rule: Cause.induct) (auto split: if_splits)

lemma Cause_store_mono:
  "Cause h x = Some y \<Longrightarrow> \<forall>a < length h. callers (deref h' a) = callers (deref h a)
     \<Longrightarrow> Cause h' x = Some y"
proof (induction h x rule: Cause.induct)
  case (4 h a)
  then have "callers (deref h a) \<noteq> []" by (auto split: if_splits)
  then have "a < length h" by (auto simp: deref_def split: if_splits)
  with 4 show ?case by (auto split: if_splits)
qed (auto split: if_splits)

lemma appendLive_callers:
  "length (appendLive h a es) = length h \<and>
   (\<forall>b. callers (deref (appendLive h a es) b) = callers (deref h b))"
proof -
  have "length (foldl (\<lambda>h err. if err \<noteq> None then appendErr h a err else h) h es) = length h \<and>
        (\<forall>b. callers (deref (foldl (\<lambda>h err. if err \<noteq> None then appendErr h a err else h) h es) b)
               = callers (deref h b))" for h
  proof (induction es arbitrary: h)
    case Nil
    then show ?case by simp
  next
    case (Cons e es)
    have step: "length (appendErr h a e) = length h \<and>
                (\<forall>b. callers (deref (appendErr h a e) b) = callers (deref h b))"
      by (auto simp: appendErr_def deref_def nth_list_update)
    show ?case using Cons [of "appendErr h a e"] Cons [of h] step by simp
  qed
  then show ?thesis by (simp add: appendLive_def)
qed

lemma NewCallers_nonempty: "skip < length stack \<Longrightarrow> NewCallers stack skip \<noteq> []"
  by (simp add: NewCallers_def runtime_Callers_def)

lemma argument_join: "argument P (Some (JoinError a)) \<Longrightarrow> JoinError a \<in> P"
  by (auto elim: argument.cases)

lemma joinMany_cases:
  obtains (append) a rest where "es = Some (JoinError a) # rest"
      "joinMany h stack skip es = (Some (JoinError a), appendLive h a rest)"
    | (fresh) "joinMany h stack skip es =
        (Some (JoinError (length h)),
         h @ [\<lparr>callers = NewCallers stack (skip + 3), errs = collectLive es\<rparr>])"
proof (cases es)
  case Nil
  then show ?thesis using fresh by (simp add: joinMany_def)
next
  case (Cons x rest)
  show ?thesis
  proof (cases x)
    case None
    with Cons show ?thesis using fresh by (simp add: joinMany_def)
  next
    case (Some e)
    with Cons show ?thesis using fresh append by (cases e) (simp_all add: joinMany_def)
  qed
qed

lemma JoinDepth_cases:
  assumes "JoinDepth h stack skip es = (r, h')"
  obtains (none) "r = None" "h' = h"
    | (one) c where "r = Some (RootError (NewCallers stack (skip + 3)) None c)" "h' = h"
    | (append) a rest where "es = Some (JoinError a) # rest" "r = Some (JoinError a)"
        "h' = appendLive h a rest"
    | (fresh) "r = Some (JoinError (length h))"
        "h' = h @ [\<lparr>callers = NewCallers stack (skip + 3), errs = collectLive es\<rparr>]"
proof (cases "countLive es = 0")
  case True
  with assms none show ?thesis by (simp add: JoinDepth_def)
next
  case False
  show ?thesis
  proof (cases "if countLive es = 1 then find (\<lambda>err. err \<noteq> None) es else None")
    case (Some c)
    with assms False have "r = Some (RootError (NewCallers stack (skip + 3)) None c)" "h' = h"
      by (auto simp: JoinDepth_def)
    then show ?thesis by (rule one)
  next
    case None
    with assms False have many: "joinMany h stack skip es = (r, h')"
      by (simp add: JoinDepth_def)
    show ?thesis
      using joinMany_cases [of es h stack skip] many append fresh by (metis prod.inject)
  qed
qed

lemma reach_anchored:
  "reach h P \<Longrightarrow> \<forall>e \<in> P. Cause h (Some e) \<noteq> None"
proof (induction rule: reach.induct)
  case start
  then show ?case by simp
next
  case (errorDepths h P skip stack flds m args e)
  then show ?case
    by (auto simp: ErrorDepths_def Let_def NewCallers_nonempty)
next
  case (wrapDepth h P c skip stack e)
  then show ?case
    by (auto simp: WrapDepth_def NewCallers_nonempty split: if_splits)
next
  case (wrapDepths h P c skip stack flds m args e)
  then show ?case
    by (auto simp: WrapDepths_def Let_def NewCallers_nonempty split: if_splits)
next
  case (joinDepth h P es skip stack r h')
  have ne: "NewCallers stack (skip + 3) \<noteq> []"
    using joinDepth.hyps(3) by (simp add: NewCallers_nonempty)
  from joinDepth.hyps(4) show ?case
  proof (cases rule: JoinDepth_cases)
    case none
    with joinDepth.IH show ?thesis by simp
  next
    case (one c)
    with joinDepth.IH ne show ?thesis by simp
  next
    case (append a rest)
    have "JoinError a \<in> P"
      using joinDepth.hyps(2) append(1) by (simp add: argument_join)
    then have P: "P \<union> set_option r = P" using append(2) by auto
    have "Cause h' (Some e) \<noteq> None" if "e \<in> P" for e
    proof -
      from that joinDepth.IH obtain y where "Cause h (Some e) = Some y" by auto
      then have "Cause h' (Some e) = Some y"
        by (rule Cause_store_mono) (simp add: append(3) appendLive_callers)
      then show ?thesis by simp
    qed
    with P show ?thesis by simp
  next
    case fresh
    have old: "Cause h' (Some e) \<noteq> None" if "e \<in> P" for e
    proof -
      from that joinDepth.IH obtain y where "Cause h (Some e) = Some y" by auto
      then have "Cause h' (Some e) = Some y"
        by (rule Cause_store_mono) (simp add: fresh(2) deref_def nth_append)
      then show ?thesis by simp
    qed
    have "Cause h' (Some (JoinError (length h))) \<noteq> None"
      using ne by (simp add: fresh(2) deref_def)
    with old fresh(1) show ?thesis by auto
  qed
qed

subsection \<open>The panics of \<open>unpack\<close>\<close>

text \<open>The frame walk of \<^verbatim>\<open>unpack\<close> never dereferences a nil annotation and the
  anchor always has a capture: when \<^verbatim>\<open>unpack\<close> panics, it is at the read of
  \<^verbatim>\<open>callers[1]\<close>.\<close>

lemma scanParentPC_range:
  "- 1 \<le> i \<Longrightarrow> - 1 \<le> scanParentPC cs parentPC i \<and> scanParentPC cs parentPC i \<le> i"
proof (induction cs parentPC i rule: scanParentPC.induct)
  case (1 cs parentPC i)
  show ?case
  proof (cases "i \<ge> 0")
    case True
    show ?thesis
    proof (cases "cs ! nat i = parentPC")
      case eq: True
      with True show ?thesis by (subst scanParentPC.simps, subst scanParentPC.simps) simp
    next
      case False
      with True 1 show ?thesis by (subst scanParentPC.simps, subst scanParentPC.simps) simp
    qed
  next
    case False
    with 1 show ?thesis by (subst scanParentPC.simps, subst scanParentPC.simps) simp
  qed
qed

lemma callerStartIndex_range:
  "- 1 \<le> callerStartIndex cs parentPC \<and> callerStartIndex cs parentPC < int (length cs)"
  using scanParentPC_range [of "int (length cs) - 1" cs parentPC]
  by (auto simp: callerStartIndex_def Let_def)

lemma frameWalk_returns:
  "\<exists>hier'. frameWalk st cs (callerStartIndex cs parentPC) (firstStackFrameError err) hier
             = Inr hier'"
  using frameWalk_spec [of "firstStackFrameError err" "callerStartIndex cs parentPC" cs st hier]
    first_annotations [of err] callerStartIndex_range [of cs parentPC]
  by blast

lemma collect_panic:
  "collect rs = Some (Inl q) \<Longrightarrow> Some (Inl q) \<in> set rs"
  by (induction rs) (auto split: option.splits sum.splits)

lemma unpack_panics_only_out_of_range:
  "unpack fuel st h err parentPC = Some (Inl q) \<Longrightarrow> q = IndexOutOfRange"
proof (induction fuel arbitrary: err parentPC)
  case 0
  then show ?case by simp
next
  case (Suc fuel)
  show ?case
  proof (cases "Cause h err")
    case None
    with Suc.prems show ?thesis by simp
  next
    case (Some fullStackErr)
    from Cause_result [OF Some] obtain cs where cs: "Callers h fullStackErr = Some cs" by blast
    from frameWalk_returns [of st cs parentPC err "UnpackHierarchy None [] [] []"]
    obtain hier where walk:
      "frameWalk st cs (callerStartIndex cs parentPC) (firstStackFrameError err)
         (UnpackHierarchy None [] [] []) = Inr hier"
      by blast
    have sub: "collect (map (\<lambda>e. unpack fuel st h e p) es) = Some (Inl q) \<Longrightarrow> q = IndexOutOfRange"
      for es p
      using Suc.IH by (auto dest!: collect_panic)
    from Suc.prems Some cs walk show ?thesis
      using sub [of "cs ! 1" "[x]" for x] sub [of "cs ! 1"]
      by (auto split: option.splits sum.splits if_splits)
  qed
qed

subsection \<open>The causes of an anchor\<close>

text \<open>\<open>causeResults\<close> is the part of \<^verbatim>\<open>unpack\<close> that follows the frame walk.\<close>

lemma unpack_Suc:
  "unpack (Suc fuel) st h err parentPC =
     (case Cause h err of
        None \<Rightarrow> Some (Inr (UnpackHierarchy err [] [] []))
      | Some fullStackErr \<Rightarrow>
          (case Callers h fullStackErr of
             None \<Rightarrow> Some (Inl InterfaceConversion)
           | Some cs \<Rightarrow>
               (case frameWalk st cs (callerStartIndex cs parentPC) (firstStackFrameError err)
                       (UnpackHierarchy None [] [] []) of
                  Inl p \<Rightarrow> Some (Inl p)
                | Inr hierarchy \<Rightarrow>
                    (case causeResults fuel st h fullStackErr cs of
                       None \<Rightarrow> None
                     | Some (Inl p) \<Rightarrow> Some (Inl p)
                     | Some (Inr subs) \<Rightarrow> Some (Inr (flatten hierarchy subs))))))"
  by (simp add: causeResults_def split: option.splits sum.splits)

lemma collect_returns:
  "collect rs = Some (Inr subs) \<Longrightarrow> rs = map (\<lambda>sub. Some (Inr sub)) subs"
  by (induction rs arbitrary: subs) (auto split: option.splits sum.splits)

lemma collect_member:
  "collect rs = Some (Inr subs) \<Longrightarrow> sub \<in> set subs \<Longrightarrow> Some (Inr sub) \<in> set rs"
  by (drule collect_returns) auto

lemma causeResults_returns:
  assumes "causeResults fuel st h fullStackErr cs = Some (Inr subs)" and "sub \<in> set subs"
  shows "\<exists>e. unpack fuel st h e (cs ! 1) = Some (Inr sub)"
proof (cases "Unwrap fullStackErr")
  case (Some e)
  with assms(1) have "collect [unpack fuel st h e (cs ! 1)] = Some (Inr subs)"
    by (simp add: causeResults_def del: collect.simps split: if_splits)
  from collect_member [OF this assms(2)] show ?thesis by auto
next
  case None
  show ?thesis
  proof (cases "UnwrapMany h fullStackErr")
    case n: None
    with None assms show ?thesis by (simp add: causeResults_def)
  next
    case (Some es)
    show ?thesis
    proof (cases "es = []")
      case True
      with None Some assms show ?thesis by (simp add: causeResults_def)
    next
      case False
      with None Some assms(1)
      have "collect (map (\<lambda>e. unpack fuel st h e (cs ! 1)) es) = Some (Inr subs)"
        by (simp add: causeResults_def del: collect.simps split: if_splits)
      from collect_member [OF this assms(2)] show ?thesis by auto
    qed
  qed
qed

lemma unpack_single_entry_capture:
  "unpack (Suc fuel) st h (Some (RootError [pc] info e)) parentPC = Some (Inl IndexOutOfRange)"
proof -
  from frameWalk_returns [of st "[pc]" parentPC "Some (RootError [pc] info e)"
      "UnpackHierarchy None [] [] []"]
  obtain hier where
    "frameWalk st [pc] (callerStartIndex [pc] parentPC)
       (firstStackFrameError (Some (RootError [pc] info e)))
       (UnpackHierarchy None [] [] []) = Inr hier"
    by blast
  then show ?thesis by simp
qed

subsection \<open>More fuel changes no result\<close>

lemma collect_fuel:
  assumes "collect (map f es) = Some r"
    and "\<And>e x. f e = Some x \<Longrightarrow> g e = Some x"
  shows "collect (map g es) = Some r"
  using assms(1)
proof (induction es arbitrary: r)
  case Nil
  then show ?case by simp
next
  case (Cons e es)
  from Cons.prems obtain x where x: "f e = Some x"
    by (cases "f e") auto
  with assms(2) have g: "g e = Some x" by simp
  show ?case
  proof (cases x)
    case (Inl p)
    with Cons.prems x g show ?thesis by simp
  next
    case (Inr sub)
    with Cons.prems x obtain r' where r': "collect (map f es) = Some r'"
      by (cases "collect (map f es)") auto
    from Cons.IH [OF r'] Cons.prems x g Inr r' show ?thesis by simp
  qed
qed

lemma unpack_fuel_Suc:
  "unpack fuel st h err parentPC = Some r \<Longrightarrow> unpack (Suc fuel) st h err parentPC = Some r"
proof (induction fuel arbitrary: err parentPC r)
  case 0
  then show ?case by simp
next
  case (Suc fuel)
  have c: "causeResults fuel st h f cs = Some x \<Longrightarrow> causeResults (Suc fuel) st h f cs = Some x"
    for f cs x
    unfolding causeResults_def
    using collect_fuel [of "\<lambda>e. unpack fuel st h e (cs ! 1)" _ x
        "\<lambda>e. unpack (Suc fuel) st h e (cs ! 1)"] Suc.IH
    by (auto split: option.splits if_splits simp del: unpack.simps)
  from Suc.prems show ?case
    unfolding unpack_Suc [of "Suc fuel"] unpack_Suc [of fuel]
    by (auto split: option.splits sum.splits dest!: c)
qed

lemma unpack_fuel_mono:
  assumes "unpack fuel st h err parentPC = Some r" and "fuel \<le> fuel'"
  shows "unpack fuel' st h err parentPC = Some r"
  using assms(2,1)
  by (induction fuel' rule: dec_induct) (auto simp del: unpack.simps intro: unpack_fuel_Suc)

lemma unpack_fuel_unique:
  assumes "unpack fuel st h err parentPC = Some r" and "unpack fuel' st h err parentPC = Some r'"
  shows "r = r'"
proof (cases "fuel \<le> fuel'")
  case True
  from unpack_fuel_mono [OF assms(1) True] assms(2) show ?thesis by simp
next
  case False
  then have "fuel' \<le> fuel" by simp
  from unpack_fuel_mono [OF assms(2) this] assms(1) show ?thesis by simp
qed

subsection \<open>The external errors of a reconstruction\<close>

text \<open>\<^verbatim>\<open>unpack\<close> leaves an error as external error only where \<^verbatim>\<open>Cause\<close> found no
  anchor for it.\<close>

lemma anchorless_sel:
  "anchorless h x = (Cause h (ErrExternal x) = None \<and> list_all (anchorless h) (SubHierarchies x))"
  by (cases x) simp

lemma frameWalk_fields:
  assumes "frameWalk st cs (callerStartIndex cs parentPC) (firstStackFrameError err) hier
             = Inr hier'"
  shows "ErrExternal hier' = ErrExternal hier \<and> SubHierarchies hier' = SubHierarchies hier"
  using frameWalk_spec [of "firstStackFrameError err" "callerStartIndex cs parentPC" cs st hier]
    first_annotations [of err] callerStartIndex_range [of cs parentPC] assms
  by auto

lemma flatten_anchorless:
  assumes "ErrExternal hier = None" and "list_all (anchorless h) subs"
  shows "anchorless h (flatten hier subs)"
proof (cases "length subs = 1")
  case True
  then obtain sub where "subs = [sub]" by (cases subs) auto
  with assms show ?thesis by (cases sub) (simp add: flatten_def)
next
  case False
  with assms show ?thesis by (simp add: flatten_def)
qed

lemma unpack_anchorless:
  "unpack fuel st h err parentPC = Some (Inr hierarchy) \<Longrightarrow> anchorless h hierarchy"
proof (induction fuel arbitrary: err parentPC hierarchy)
  case 0
  then show ?case by simp
next
  case (Suc fuel)
  show ?case
  proof (cases "Cause h err")
    case None
    with Suc.prems show ?thesis by auto
  next
    case (Some fullStackErr)
    from Cause_result [OF Some] obtain cs where cs: "Callers h fullStackErr = Some cs" by blast
    from frameWalk_returns [of st cs parentPC err "UnpackHierarchy None [] [] []"]
    obtain hier where walk:
      "frameWalk st cs (callerStartIndex cs parentPC) (firstStackFrameError err)
         (UnpackHierarchy None [] [] []) = Inr hier"
      by blast
    from frameWalk_fields [OF walk] have ext: "ErrExternal hier = None" by simp
    from Suc.prems Some cs walk obtain subs where
      subs: "causeResults fuel st h fullStackErr cs = Some (Inr subs)"
      and h: "hierarchy = flatten hier subs"
      unfolding unpack_Suc by (auto split: option.splits sum.splits)
    have "list_all (anchorless h) subs"
      unfolding list_all_iff
    proof
      fix sub assume "sub \<in> set subs"
      from causeResults_returns [OF subs this] Suc.IH show "anchorless h sub" by blast
    qed
    with ext h show ?thesis by (simp add: flatten_anchorless)
  qed
qed

subsection \<open>Rendering\<close>

text \<open>What \<^verbatim>\<open>toCustomString\<close> hands to \<^verbatim>\<open>fmt.Sprint\<close> for an error of this package is
  \<^verbatim>\<open>ToString\<close> without trace on that error, with one unit of fuel less.\<close>

lemma toCustomString_external:
  "Sprint host
     (\<lambda>e. case fuel of
             0 \<Rightarrow> None
           | Suc fuel' \<Rightarrow>
               (case unpack fuel' st h (Some e) 0 of
                  None \<Rightarrow> None
                | Some (Inl p) \<Rightarrow> Some (Inl p)
                | Some (Inr frames) \<Rightarrow>
                    toCustomString fuel' st h host frames
                      (NewDefaultStringFormat host
                         \<lparr>LocationFormatFunc = DefaultLocationFormatFunc, WithTrace = False\<rparr>)
                      1)) e
   = Sprint host
       (\<lambda>e. case fuel of 0 \<Rightarrow> None | Suc fuel' \<Rightarrow> ToString fuel' st h host (Some e) False) e"
  by (cases fuel) (simp_all add: ToString_def ToCustomString_def)

text \<open>An error of this package for which \<^verbatim>\<open>Cause\<close> finds no anchor is never rendered:
  its reconstruction is a leaf that holds the error itself as external error, printing
  the leaf prints that error, and printing that error reconstructs it again.\<close>

lemma restFrames_Nil: "restFrames format level [] (str, i) = str"
  by (subst restFrames.simps) simp

lemma package_external_never_renders:
  "foreignText e = None \<Longrightarrow> Cause h (Some e) = None \<Longrightarrow>
     toCustomString fuel st h host (UnpackHierarchy (Some e) [] [] []) format level = None"
proof (induction fuel arbitrary: format level)
  case 0
  then show ?case by (simp add: Sprint_def restFrames_Nil)
next
  case (Suc fuel)
  show ?case
  proof (cases fuel)
    case 0
    with Suc.prems show ?thesis by (simp add: Sprint_def restFrames_Nil)
  next
    case (Suc n)
    with Suc.prems Suc.IH show ?thesis by (simp add: Sprint_def restFrames_Nil)
  qed
qed

lemma Sprint_package_external:
  assumes "foreignText e = None" and "Cause h (Some e) = None"
  shows "Sprint host
           (\<lambda>e. case fuel of
                   0 \<Rightarrow> None
                 | Suc fuel' \<Rightarrow>
                     (case unpack fuel' st h (Some e) 0 of
                        None \<Rightarrow> None
                      | Some (Inl p) \<Rightarrow> Some (Inl p)
                      | Some (Inr frames) \<Rightarrow>
                          toCustomString fuel' st h host frames format' 1)) e = None"
proof (cases fuel)
  case 0
  with assms show ?thesis by (simp add: Sprint_def)
next
  case (Suc n)
  show ?thesis
  proof (cases n)
    case 0
    with Suc assms show ?thesis by (simp add: Sprint_def)
  next
    case (Suc m)
    with \<open>fuel = Suc n\<close> assms package_external_never_renders [OF assms, of n st host format' 1]
    show ?thesis by (simp add: Sprint_def)
  qed
qed


text \<open>Without trace, the rendering reads no location.\<close>

lemma renderLinks_without_trace:
  "\<not> WithTrace (Options format) \<Longrightarrow>
     renderLinks host format level locs links (str, i) =
       Inr (str @ concat (map (\<lambda>link.
                    Sprintf host (Msg link) (MsgArgs link)
                    @ (if Fields link \<noteq> []
                       then Repeat (PreStackSep format) (level + 1)
                            @ FieldFormatFunc format (Fields link)
                       else [])
                    @ ErrorSep format) links), i)"
  by (induction links arbitrary: str) (auto simp: Let_def)

lemma subStrings_without_trace:
  assumes nt: "\<not> WithTrace (Options format)"
    and IH: "\<And>sub level. sub \<in> set subs \<Longrightarrow> anchorless h sub \<Longrightarrow>
               toCustomString fuel st h host sub format level =
                 (if foreignOnly sub
                  then Some (Inr (plainText host (PreStackSep format) (ErrorSep format)
                                    (FieldFormatFunc format) (dropLocations sub) level))
                  else None)"
    and al: "list_all (anchorless h) subs"
  shows "subStrings fuel st h host subs format level i str =
           (if list_all foreignOnly subs
            then Some (Inr (str @ concat (map (\<lambda>sub. plainText host (PreStackSep format)
                                   (ErrorSep format) (FieldFormatFunc format)
                                   (dropLocations sub) (level + 1)) subs)))
            else None)"
  using IH al
proof (induction subs arbitrary: i str)
  case Nil
  then show ?case by simp
next
  case (Cons sub subs)
  have a: "anchorless h sub" and as: "list_all (anchorless h) subs"
    using Cons.prems(2) by simp_all
  have s: "toCustomString fuel st h host sub format (Suc level) =
             (if foreignOnly sub
              then Some (Inr (plainText host (PreStackSep format) (ErrorSep format)
                                (FieldFormatFunc format) (dropLocations sub) (Suc level)))
              else None)"
    using Cons.prems(1) [of sub "Suc level"] a by simp
  have r: "subStrings fuel st h host subs format level i' str' =
           (if list_all foreignOnly subs
            then Some (Inr (str' @ concat (map (\<lambda>sub. plainText host (PreStackSep format)
                                   (ErrorSep format) (FieldFormatFunc format)
                                   (dropLocations sub) (level + 1)) subs)))
            else None)" for i' str'
    using Cons.IH [of i' str'] Cons.prems(1) as by simp
  show ?case using nt by (simp add: s r)
qed

lemma toCustomString_without_trace:
  assumes "\<not> WithTrace (Options format)"
  shows "anchorless h hierarchy \<Longrightarrow>
         toCustomString fuel st h host hierarchy format level =
           (if foreignOnly hierarchy
            then Some (Inr (plainText host (PreStackSep format) (ErrorSep format)
                              (FieldFormatFunc format) (dropLocations hierarchy) level))
            else None)"
proof (induction hierarchy arbitrary: level)
  case (UnpackHierarchy ext locs links subs)
  have al: "Cause h ext = None" "list_all (anchorless h) subs"
    using UnpackHierarchy.prems by simp_all
  have subs: "subStrings fuel st h host subs format level i str =
           (if list_all foreignOnly subs
            then Some (Inr (str @ concat (map (\<lambda>sub. plainText host (PreStackSep format)
                                   (ErrorSep format) (FieldFormatFunc format)
                                   (dropLocations sub) (level + 1)) subs)))
            else None)" for i str
    using subStrings_without_trace [OF assms _ al(2), where fuel = fuel and st = st
        and host = host and level = level and i = i and str = str]
      UnpackHierarchy.IH by blast
  show ?case
  proof (cases ext)
    case None
    then show ?thesis
      using assms by (simp add: renderLinks_without_trace subs comp_def)
  next
    case (Some e)
    show ?thesis
    proof (cases "foreignText e")
      case None
      from Sprint_package_external [OF None, where h = h and host = host and fuel = fuel
          and st = st] al(1) Some
      show ?thesis using assms None
        by (simp add: renderLinks_without_trace)
    next
      case (Some s)
      then show ?thesis
        using assms \<open>ext = Some e\<close>
        by (simp add: renderLinks_without_trace subs comp_def Sprint_def)
    qed
  qed
qed

lemma default_format_without_trace:
  "\<not> WithTrace (Options (NewDefaultStringFormat host
       \<lparr>LocationFormatFunc = DefaultLocationFormatFunc, WithTrace = False\<rparr>))"
  "PreStackSep (NewDefaultStringFormat host
       \<lparr>LocationFormatFunc = DefaultLocationFormatFunc, WithTrace = False\<rparr>) = []"
  "ErrorSep (NewDefaultStringFormat host
       \<lparr>LocationFormatFunc = DefaultLocationFormatFunc, WithTrace = False\<rparr>) = '': ''"
  "FieldFormatFunc (NewDefaultStringFormat host
       \<lparr>LocationFormatFunc = DefaultLocationFormatFunc, WithTrace = False\<rparr>) = SprintFields host"
  by (auto simp: NewDefaultStringFormat_def DefaultFieldFormat_def)

lemma ToString_never_returns:
  assumes "Unpack fuel st h err = Some (Inr hierarchy)" and "\<not> foreignOnly hierarchy"
  shows "ToString fuel' st h host err False = None"
proof (cases "unpack fuel' st h err 0")
  case None
  then show ?thesis by (simp add: ToString_def ToCustomString_def)
next
  case (Some r)
  from unpack_fuel_unique [OF Some] assms(1) have r: "r = Inr hierarchy"
    by (simp add: Unpack_def)
  from assms(1) have "anchorless h hierarchy"
    by (auto simp: Unpack_def dest: unpack_anchorless)
  from toCustomString_without_trace [OF default_format_without_trace(1) this] assms(2) Some r
  show ?thesis
    by (simp add: ToString_def ToCustomString_def)
qed

section \<open>The claims\<close>

text \<open>
  C1. The claim: for every input error, however malformed (also an anchor whose full
  capture holds only one entry), \<^verbatim>\<open>unpack\<close> returns a hierarchy and never panics.
  The code reads \<^verbatim>\<open>callers[1]\<close> for the recursive call without a bound check: on a
  root error whose capture holds exactly one entry, \<^verbatim>\<open>Unpack\<close> panics with an index
  out of range, whatever the fuel, the symbol table, the store, the annotation and the
  cause are. (Nor does \<^verbatim>\<open>unpack\<close> return on a join that holds itself, see
  \<open>self_join_never_returns\<close>; every panic of \<^verbatim>\<open>unpack\<close> is this one, see
  \<open>unpack_panics_only_out_of_range\<close>.)
\<close>

theorem Unpack_single_entry_capture_panics:
  "Unpack (Suc fuel) st h (Some (RootError [pc] info e)) = Some (Inl IndexOutOfRange)"
proof -
  have "\<exists>hier. frameWalk st [pc] 0 cursor (UnpackHierarchy None [] [] []) = Inr hier" for cursor
    using spliceLinks_deepest [of st "[pc]" cursor]
    by (subst frameWalk.simps) (simp add: frameWalk_negative)
  then obtain hier where
    "frameWalk st [pc] 0 (firstStackFrameError (Some (RootError [pc] info e)))
       (UnpackHierarchy None [] [] []) = Inr hier"
    by blast
  then show ?thesis
    by (simp add: Unpack_def callerStartIndex_def)
qed

text \<open>Such a root error comes out of the construction surface: \<^verbatim>\<open>ErrorDepth(1, "boom")\<close>
  called in the entry function of a goroutine, where the stack above the four frames of
  the package holds that function and \<^verbatim>\<open>runtime.goexit\<close>.\<close>

lemma ErrorDepth_single_entry_capture:
  "ErrorDepth [c1, c2, c3, c4, u, g] 1 ''boom'' =
     Some (RootError [g]
             (Some \<lparr>caller = g, callerCaller = 0, fields' = [], msg = ''boom'', msgArgs = []\<rparr>)
             None)"
  by (simp add: ErrorDepth_def ErrorDepths_def NewCallers_def runtime_Callers_def
      NewAdditionalInformationFromCallers_def emptyInformation_def)

text \<open>
  C2. The claim: a wrap of a nil cause fails by signalling a usage error, and builds no
  error value that wraps nothing. The wrap functions have no failing result and no nil
  test: for a nil cause \<^verbatim>\<open>Cause\<close> finds no anchor, and they return a root error with a
  fresh full capture (and, for \<^verbatim>\<open>WrapDepths\<close>, the annotation given) whose cause is nil.
\<close>

theorem wrap_nil_counterexample:
  "Wrapf [] [1, 2, 3, 4, 17, 33] None ''context'' [] =
     Some (RootError [17, 33]
            (Some \<lparr>caller = 17, callerCaller = 33, fields' = [], msg = ''context'', msgArgs = []\<rparr>)
            None)"
  by (simp add: Wrapf_def WrapDepths_def NewCallers_def runtime_Callers_def
      NewAdditionalInformationFromCallers_def emptyInformation_def)

text \<open>
  C2, as the code has it: for a nil cause, \<^verbatim>\<open>WrapDepth\<close> returns a root error that
  holds the capture, no annotation and no cause; \<^verbatim>\<open>WrapDepths\<close> returns a root error
  that holds the capture, the annotation made of the first two entries of the capture, the
  fields, the message and its arguments, and no cause; \<^verbatim>\<open>Wrap\<close> and \<^verbatim>\<open>Wrapf\<close> are these
  at depth 1. None of them signals anything.
\<close>

theorem wrap_nil_builds_root:
  "WrapDepth h stack skip None = Some (RootError (NewCallers stack (skip + 3)) None None) \<and>
   WrapDepths h stack skip None flds m args =
     Some (RootError (NewCallers stack (skip + 3))
            (Some ((NewAdditionalInformationFromCallers (NewCallers stack (skip + 3)))
                     \<lparr>fields' := flds, msg := m, msgArgs := args\<rparr>))
            None) \<and>
   Wrap h stack None = WrapDepth h stack 1 None \<and>
   Wrapf h stack None m args = WrapDepths h stack 1 None [] m args"
  by (simp add: WrapDepth_def WrapDepths_def Wrap_def Wrapf_def Let_def)

text \<open>
  C3. The claim: with at least two non-nil arguments, when the first non-nil argument is
  a join, \<^verbatim>\<open>JoinDepth\<close> appends the other non-nil arguments to that join in place and
  returns it; otherwise it builds a new join. The code tests \<^verbatim>\<open>errs[0]\<close>, not the first
  non-nil argument: for \<^verbatim>\<open>Join(nil, j, c)\<close> with \<open>j\<close> a join it builds a new join
  (address 1) whose causes are \<open>j\<close> and \<open>c\<close>, and leaves \<open>j\<close> (address 0) as it was.
\<close>

theorem JoinDepth_first_live_counterexample:
  "JoinDepth [\<lparr>callers = [17, 33], errs = [Some (External ''a''), Some (External ''b'')]\<rparr>]
     [1, 2, 3, 4, 18, 33] 1 [None, Some (JoinError 0), Some (External ''c'')]
   = (Some (JoinError 1),
      [\<lparr>callers = [17, 33], errs = [Some (External ''a''), Some (External ''b'')]\<rparr>,
       \<lparr>callers = [18, 33], errs = [Some (JoinError 0), Some (External ''c'')]\<rparr>])"
  by (simp add: JoinDepth_def countLive_def joinMany_def collectLive_def NewCallers_def
      runtime_Callers_def)

text \<open>
  C3, as the code has it: with at least two non-nil arguments, when the first argument
  (\<^verbatim>\<open>errs[0]\<close>) is a join, \<^verbatim>\<open>JoinDepth\<close> returns that same join and the store differs
  only at its address, where the causes are the former ones followed by the non-nil
  arguments after the first, in order, and the capture is unchanged; when the first
  argument is not a join (also when it is nil), \<^verbatim>\<open>JoinDepth\<close> returns a new join object
  with a new full capture whose causes are the non-nil arguments in order.
  (\<open>Join_append_shape\<close> above: joining \<open>e3\<close> into the join of \<open>e1\<close> and \<open>e2\<close>
  leaves the three causes that the join of \<open>e1\<close>, \<open>e2\<close> and \<open>e3\<close> has.)
\<close>

theorem JoinDepth_many:
  assumes "2 \<le> length (filter (\<lambda>e. e \<noteq> None) es)"
  shows "(\<forall>a rest. es = Some (JoinError a) # rest \<longrightarrow> a < length h \<longrightarrow>
            JoinDepth h stack skip es =
              (Some (JoinError a),
               h[a := (h ! a)\<lparr>errs := errs (h ! a) @ filter (\<lambda>e. e \<noteq> None) rest\<rparr>])) \<and>
         ((\<forall>a rest. es \<noteq> Some (JoinError a) # rest) \<longrightarrow>
            JoinDepth h stack skip es =
              (Some (JoinError (length h)),
               h @ [\<lparr>callers = NewCallers stack (skip + 3),
                      errs = filter (\<lambda>e. e \<noteq> None) es\<rparr>]))"
  using assms JoinDepth_append [of a rest h stack skip for a rest]
    JoinDepth_fresh [of es h stack skip]
  by blast

theorem JoinDepth_many_witness:
  "JoinDepth [\<lparr>callers = [17, 33], errs = [Some (External ''a''), Some (External ''b'')]\<rparr>]
     [1, 2, 3, 4, 18, 33] 1 [Some (JoinError 0), None, Some (External ''c'')]
   = (Some (JoinError 0),
      [\<lparr>callers = [17, 33],
        errs = [Some (External ''a''), Some (External ''b''), Some (External ''c'')]\<rparr>]) \<and>
   JoinDepth [] [1, 2, 3, 4, 17, 33] 1 [Some (External ''a''), None, Some (External ''b'')]
   = (Some (JoinError 0),
      [\<lparr>callers = [17, 33], errs = [Some (External ''a''), Some (External ''b'')]\<rparr>])"
  using
    JoinDepth_many [of "[Some (JoinError 0), None, Some (External ''c'')]"
      "[\<lparr>callers = [17, 33], errs = [Some (External ''a''), Some (External ''b'')]\<rparr>]"
      "[1, 2, 3, 4, 18, 33]" 1]
    JoinDepth_many [of "[Some (External ''a''), None, Some (External ''b'')]" "[]"
      "[1, 2, 3, 4, 17, 33]" 1]
  by (simp add: NewCallers_def runtime_Callers_def)

text \<open>
  C4. The claim: a merge of no non-nil error returns nil, and a merge of exactly one
  non-nil error behaves as a wrap of that error with an empty annotation, which anchors
  it only if needed. For one non-nil error the code always builds a root error with a
  new full capture and no annotation. For an error that already has an anchor, a wrap
  builds a wrap error with an annotation instead, and the two reconstruct differently:
  here the merge and the wrap are made where the stack shares nothing with the capture
  of the error.
\<close>

theorem Join_one_live_counterexample:
  "fst (Join [] [1, 2, 3, 4, 114, 129]
         [None, Some (RootError [17, 33, 49] None None), None])
     = Some (RootError [114, 129] None (Some (RootError [17, 33, 49] None None))) \<and>
   Wrap [] [1, 2, 3, 4, 114, 129] (Some (RootError [17, 33, 49] None None))
     = Some (WrapError
              (Some \<lparr>caller = 114, callerCaller = 129, fields' = [], msg = [], msgArgs = []\<rparr>)
              (Some (RootError [17, 33, 49] None None))) \<and>
   Unpack 3 (\<lambda>pc. (''f.go'', uint pc, ''f'')) []
       (fst (Join [] [1, 2, 3, 4, 114, 129]
              [None, Some (RootError [17, 33, 49] None None), None]))
     \<noteq> Unpack 3 (\<lambda>pc. (''f.go'', uint pc, ''f'')) []
         (Wrap [] [1, 2, 3, 4, 114, 129] (Some (RootError [17, 33, 49] None None)))"
  by code_simp

text \<open>
  C4, as the code has it: a merge of no non-nil error returns nil and leaves the store as
  it was; a merge of exactly one non-nil error returns a root error with a new full
  capture, no annotation and that error as its cause, whether or not the error already
  has an anchor, and leaves the store as it was; that is what \<^verbatim>\<open>WrapDepth\<close> returns
  for the same error when the error has no anchor.
\<close>

theorem JoinDepth_degenerate:
  "(filter (\<lambda>e. e \<noteq> None) es = [] \<longrightarrow> JoinDepth h stack skip es = (None, h)) \<and>
   (filter (\<lambda>e. e \<noteq> None) es = [e] \<longrightarrow>
      JoinDepth h stack skip es = (Some (RootError (NewCallers stack (skip + 3)) None e), h) \<and>
      (Cause h e = None \<longrightarrow> fst (JoinDepth h stack skip es) = WrapDepth h stack skip e))"
  by (simp add: JoinDepth_def countLive_filter find_filter WrapDepth_def)

theorem JoinDepth_degenerate_witness:
  "JoinDepth [] [1, 2, 3, 4, 17, 33] 1 [None, None] = (None, []) \<and>
   JoinDepth [] [1, 2, 3, 4, 17, 33] 1 [None, Some (External ''e''), None]
     = (Some (RootError [17, 33] None (Some (External ''e''))), []) \<and>
   fst (JoinDepth [] [1, 2, 3, 4, 17, 33] 1 [None, Some (External ''e''), None])
     = WrapDepth [] [1, 2, 3, 4, 17, 33] 1 (Some (External ''e''))"
  using
    JoinDepth_degenerate [where es = "[None, None]" and h = "[]"
      and stack = "[1, 2, 3, 4, 17, 33]" and skip = 1]
    JoinDepth_degenerate [where es = "[None, Some (External ''e''), None]"
      and e = "Some (External ''e'')" and h = "[]" and stack = "[1, 2, 3, 4, 17, 33]"
      and skip = 1]
  by (auto simp: NewCallers_def runtime_Callers_def)

text \<open>
  C5. The claim: for every non-nil error built by the construction surface, depth
  variants included, \<^verbatim>\<open>Cause\<close> finds an anchor. A depth variant that skips every frame
  of the stack captures nothing, and \<^verbatim>\<open>Cause\<close> takes a root error as an anchor only
  when its capture is not empty: \<^verbatim>\<open>ErrorDepth(2, "boom")\<close>, called where two frames
  stand above the package's own, returns a root error on which \<^verbatim>\<open>Cause\<close> returns nil.
\<close>

theorem empty_capture_counterexample:
  "ErrorDepth [1, 2, 3, 4, 17, 33] 2 ''boom'' =
     Some (RootError []
             (Some \<lparr>caller = 0, callerCaller = 0, fields' = [], msg = ''boom'', msgArgs = []\<rparr>)
             None) \<and>
   Cause [] (ErrorDepth [1, 2, 3, 4, 17, 33] 2 ''boom'') = None"
  by (simp add: ErrorDepth_def ErrorDepths_def NewCallers_def runtime_Callers_def
      NewAdditionalInformationFromCallers_def emptyInformation_def)

text \<open>
  C5, as the code has it: for every error built by the construction surface with no
  capture empty (the stack is deeper than the frames skipped, as it is for
  \<^verbatim>\<open>New\<close>, \<^verbatim>\<open>Errorf\<close>, \<^verbatim>\<open>Errors\<close>, \<^verbatim>\<open>Wrap\<close>, \<^verbatim>\<open>Wrapf\<close>, \<^verbatim>\<open>Wraps\<close> and
  \<^verbatim>\<open>Join\<close>, which skip up to their caller), \<^verbatim>\<open>Cause\<close> returns an anchor: a root
  error or a join that has a capture, and the capture is not empty. This holds in every
  store reached, also after joins have grown in place.
\<close>

theorem constructed_has_anchor:
  assumes "reach h P" and "e \<in> P"
  shows "\<exists>anchor cs. Cause h (Some e) = Some anchor \<and> Callers h anchor = Some cs \<and> cs \<noteq> [] \<and>
           ((\<exists>info c. anchor = RootError cs info c) \<or> (\<exists>a. anchor = JoinError a))"
proof -
  from reach_anchored [OF assms(1)] assms(2) obtain anchor where "Cause h (Some e) = Some anchor"
    by auto
  with Cause_result [OF this] show ?thesis by blast
qed

theorem constructed_has_anchor_witness:
  "\<exists>anchor cs.
     Cause [] (Some (RootError [17, 33]
                 (Some \<lparr>caller = 17, callerCaller = 33, fields' = [], msg = ''boom'',
                         msgArgs = []\<rparr>) None)) = Some anchor \<and>
     Callers [] anchor = Some cs \<and> cs \<noteq> [] \<and>
     ((\<exists>info c. anchor = RootError cs info c) \<or> (\<exists>a. anchor = JoinError a))"
proof -
  let ?e = "RootError [17, 33]
              (Some \<lparr>caller = 17, callerCaller = 33, fields' = [], msg = ''boom'',
                      msgArgs = []\<rparr>) None"
  have "ErrorDepths [1, 2, 3, 4, 17, 33] 1 [] ''boom'' [] = Some ?e"
    by (simp add: ErrorDepths_def NewCallers_def runtime_Callers_def
        NewAdditionalInformationFromCallers_def emptyInformation_def)
  from reach.errorDepths [OF reach.start _ this] have "reach [] {?e}" by simp
  from constructed_has_anchor [OF this, of ?e] show ?thesis by simp
qed

text \<open>
  C6. The claim: a chain of \<open>N\<close> wraps over a single root error reconstructs to a
  hierarchy with no sub-hierarchy whose links hold the \<open>N\<close> links of the wraps, outermost
  first. The frame walk splices an annotation only where its \<^verbatim>\<open>callerCaller\<close> equals
  a frame of the capture, and the cursor waits on the first annotation that finds none.
  Here the root error is made in a function that then passes it to a helper, and the
  helper wraps it with a message: the caller of the helper's wrap is a position of that
  function that the capture of the root error does not hold, so the hierarchy has no
  link at all, neither the wrap's nor the root's.
\<close>

theorem wrap_in_helper_counterexample:
  "Unpack (Suc (Suc 0)) (\<lambda>pc. (''f.go'', uint pc, ''f'')) []
     (Wrapf [] [1, 2, 3, 4, 153, 18, 33, 49] (New [1, 2, 3, 4, 17, 33, 49] ''root fail'')
        ''helper'' [])
   = Some (Inr (UnpackHierarchy None
                  [\<lparr>Filename = ''f.go'', Line = 49, FuncName = ''f''\<rparr>,
                   \<lparr>Filename = ''f.go'', Line = 33, FuncName = ''f''\<rparr>,
                   \<lparr>Filename = ''f.go'', Line = 17, FuncName = ''f''\<rparr>]
                  [] []))"
  by code_simp

text \<open>
  C6, as the code has it: a chain of any number of wraps over a root error whose capture
  has at least two entries and whose own cause has no anchor reconstructs to one
  hierarchy with no sub-hierarchy, whose external error is the cause of the root error.
  Its links are, in outer-to-inner order, those of the annotations of the chain (the
  wraps', outermost first, then those from the root error on) that carry a message,
  arguments or fields, as far as the frame walk splices them (\<open>matched\<close>). When every
  wrap carries such content and the walk splices the annotations of all the wraps, the
  first \<open>N\<close> links are the links of the \<open>N\<close> wraps, outermost first.
\<close>

theorem wrap_chain_flat:
  assumes "2 \<le> length cs" and "Cause h c = None"
  shows "\<exists>locs links.
           Unpack (Suc (Suc fuel)) st h (wrapCalls h calls (Some (RootError cs rinfo c)))
             = Some (Inr (UnpackHierarchy c locs links [])) \<and>
           links = map (linkOf st) (filter hasContent
                     (matched (map annotationOf calls @ annotationsBelow (Some (RootError cs rinfo c)))
                        (rev (tl cs)))) \<and>
           ((\<forall>call \<in> set calls. hasContent (annotationOf call)) \<and>
            length calls \<le> length (matched (map annotationOf calls
                                     @ annotationsBelow (Some (RootError cs rinfo c))) (rev (tl cs)))
            \<longrightarrow> take (length calls) links = map (linkOf st) (map annotationOf calls))"
proof -
  let ?root = "RootError cs rinfo c"
  let ?top = "wrapCalls h calls (Some ?root)"
  let ?ds = "map annotationOf calls @ annotationsBelow (Some ?root)"
  have ne: "cs \<noteq> []" using assms(1) by auto
  then have "Cause h (Some ?root) = Some ?root" by simp
  from wrapCalls_chain [OF this, of calls]
  have top: "Cause h ?top = Some ?root" "annotationsBelow ?top = ?ds"
    by simp_all
  have start: "callerStartIndex cs 0 = int (length cs) - 1"
    by (simp add: callerStartIndex_def)
  from first_annotations [of ?top] top(2)
  have cur: "cursorOk (firstStackFrameError ?top)"
    "annotationsBelow (firstStackFrameError ?top) = ?ds"
    by simp_all
  from frameWalk_spec [OF cur(1), of "int (length cs) - 1" cs st "UnpackHierarchy None [] [] []"]
  obtain hier where
    w: "frameWalk st cs (int (length cs) - 1) (firstStackFrameError ?top)
          (UnpackHierarchy None [] [] []) = Inr hier"
      "Links hier = map (linkOf st) (filter hasContent (matched ?ds (rev (tl cs))))"
      "SubHierarchies hier = []"
    using ne by (auto simp: cur(2))
  have len: "\<not> length cs \<le> 1" using assms(1) by simp
  have unp: "Unpack (Suc (Suc fuel)) st h ?top =
          Some (Inr (UnpackHierarchy c (CallerLocations hier) (Links hier) []))"
    using top(1) start w(1) assms(2) len
    by (simp add: Unpack_def flatten_def del: annotationsBelow.simps)
  have "take (length calls) (Links hier) = map (linkOf st) (map annotationOf calls)"
    if all: "\<forall>call \<in> set calls. hasContent (annotationOf call)"
      and cover: "length calls \<le> length (matched ?ds (rev (tl cs)))"
  proof -
    obtain rest where rest: "?ds = matched ?ds (rev (tl cs)) @ rest"
      using matched_prefix by blast
    then have "take (length calls) ?ds = take (length calls) (matched ?ds (rev (tl cs)) @ rest)"
      by simp
    with cover have "map annotationOf calls = take (length calls) (matched ?ds (rev (tl cs)))"
      by simp
    then obtain more where more: "matched ?ds (rev (tl cs)) = map annotationOf calls @ more"
      by (metis append_take_drop_id)
    have "filter hasContent (map annotationOf calls) = map annotationOf calls"
      using all by (simp add: filter_id_conv)
    then show ?thesis
      unfolding w(2) more by simp
  qed
  with unp w(2) show ?thesis by (simp del: annotationsBelow.simps)
qed

theorem wrap_chain_flat_witness:
  "\<exists>locs.
     Unpack (Suc (Suc 0)) (\<lambda>pc. (''f.go'', uint pc, ''f'')) []
       (wrapCalls []
          [([1, 2, 3, 4, 50, 65], 1, [], ''top'', []),
           ([1, 2, 3, 4, 34, 49, 65], 1, [(''k'', ''v'')], ''mid'', [])]
          (Some (RootError [17, 33, 49, 65]
                   (Some \<lparr>caller = 17, callerCaller = 33, fields' = [], msg = ''root fail'',
                           msgArgs = []\<rparr>)
                   None)))
     = Some (Inr (UnpackHierarchy None locs
          [\<lparr>Msg = ''top'', MsgArgs = [], Fields = [],
             CallerLocation = \<lparr>Filename = ''f.go'', Line = 50, FuncName = ''f''\<rparr>\<rparr>,
           \<lparr>Msg = ''mid'', MsgArgs = [], Fields = [(''k'', ''v'')],
             CallerLocation = \<lparr>Filename = ''f.go'', Line = 34, FuncName = ''f''\<rparr>\<rparr>,
           \<lparr>Msg = ''root fail'', MsgArgs = [], Fields = [],
             CallerLocation = \<lparr>Filename = ''f.go'', Line = 17, FuncName = ''f''\<rparr>\<rparr>]
          []))"
proof -
  let ?st = "\<lambda>pc :: uintptr. (''f.go'', uint pc, ''f'')"
  let ?calls = "[([1, 2, 3, 4, 50, 65], 1, [], ''top'', []),
                 ([1, 2, 3, 4, 34, 49, 65], 1, [(''k'', ''v'')], ''mid'', [])] :: wrapCall list"
  let ?rinfo = "Some \<lparr>caller = 17, callerCaller = 33, fields' = [], msg = ''root fail'',
                       msgArgs = []\<rparr>"
  have links: "map (linkOf ?st) (filter hasContent
                 (matched (map annotationOf ?calls
                             @ annotationsBelow (Some (RootError [17, 33, 49, 65] ?rinfo None)))
                    (rev (tl [17, 33, 49, 65]))))
               = [\<lparr>Msg = ''top'', MsgArgs = [], Fields = [],
                    CallerLocation = \<lparr>Filename = ''f.go'', Line = 50, FuncName = ''f''\<rparr>\<rparr>,
                  \<lparr>Msg = ''mid'', MsgArgs = [], Fields = [(''k'', ''v'')],
                    CallerLocation = \<lparr>Filename = ''f.go'', Line = 34, FuncName = ''f''\<rparr>\<rparr>,
                  \<lparr>Msg = ''root fail'', MsgArgs = [], Fields = [],
                    CallerLocation = \<lparr>Filename = ''f.go'', Line = 17, FuncName = ''f''\<rparr>\<rparr>]"
    by code_simp
  have "2 \<le> length [17, 33, 49, 65 :: uintptr]" and "Cause [] None = None"
    by simp_all
  from wrap_chain_flat [OF this, of 0 ?st ?calls ?rinfo] show ?thesis
    unfolding links by blast
qed

text \<open>
  C7. The claim: for every three errors \<open>e1\<close>, \<open>e2\<close>, \<open>e3\<close> none of which is a join,
  the reconstruction of \<^verbatim>\<open>Join(e1, e2, e3)\<close> is one hierarchy with exactly three
  sub-hierarchies, in argument order, each cause reconstructed with the second entry of
  the join's capture as its floor. \<^verbatim>\<open>unpack\<close> calls itself on each cause of the join.
  When \<open>e1\<close> is a root error whose capture holds exactly one entry, that call panics at
  its read of \<^verbatim>\<open>callers[1]\<close> (the read of C1), and with it the reconstruction of the
  join: it panics with an index out of range and produces no hierarchy, whatever \<open>e2\<close>
  and \<open>e3\<close>, the fuel, the symbol table and the store are. The stack at the call of
  \<^verbatim>\<open>Join\<close> holds the four frames of the package, the caller of \<^verbatim>\<open>Join\<close> and at least
  one frame below.
\<close>

theorem Join_single_entry_child_panics:
  "(case Join h (c1 # c2 # c3 # c4 # u # g # stack)
           [Some (RootError [pc] info e), Some e2, Some e3] of
      (j, h') \<Rightarrow> Unpack (Suc (Suc fuel)) st h' j)
   = Some (Inl IndexOutOfRange)"
proof -
  let ?stack = "c1 # c2 # c3 # c4 # u # g # stack"
  let ?cs = "NewCallers ?stack 4"
  let ?es = "[Some (RootError [pc] info e), Some e2, Some e3]"
  let ?h' = "h @ [\<lparr>callers = ?cs, errs = ?es\<rparr>]"
  have j: "Join h ?stack ?es = (Some (JoinError (length h)), ?h')"
    by (simp add: Join_def JoinDepth_fresh)
  have len: "2 \<le> length ?cs"
    by (simp add: NewCallers_def runtime_Callers_def)
  have d: "deref ?h' (length h) = \<lparr>callers = ?cs, errs = ?es\<rparr>"
    by (simp add: deref_def)
  have ne: "?cs \<noteq> []" using len by auto
  from frameWalk_returns [of st ?cs 0 "Some (JoinError (length h))"
      "UnpackHierarchy None [] [] []"]
  obtain hier where walk:
    "frameWalk st ?cs (callerStartIndex ?cs 0) (firstStackFrameError (Some (JoinError (length h))))
       (UnpackHierarchy None [] [] []) = Inr hier"
    by blast
  have child: "unpack (Suc fuel) st ?h' (Some (RootError [pc] info e)) (?cs ! 1)
                 = Some (Inl IndexOutOfRange)"
    by (rule unpack_single_entry_capture)
  have "Unpack (Suc (Suc fuel)) st ?h' (Some (JoinError (length h))) = Some (Inl IndexOutOfRange)"
    unfolding Unpack_def unpack_Suc [of "Suc fuel"]
    using len ne walk child
    by (simp add: d causeResults_def del: unpack.simps)
  with j show ?thesis by simp
qed

text \<open>
  When the reconstructions of the three causes return, the reconstruction of the join
  is as C7 says. For \<open>e1\<close> not a join, \<^verbatim>\<open>Join(e1, e2, e3)\<close> is a new join object, and
  its reconstruction is one hierarchy with exactly three sub-hierarchies, in argument
  order: the reconstructions of \<open>e1\<close>, \<open>e2\<close>, \<open>e3\<close>, each with the second entry of the
  join's capture as its floor.
\<close>

lemma Join_three_branches:
  assumes "\<forall>a. e1 \<noteq> JoinError a"
    and "Join h stack [Some e1, Some e2, Some e3] = (j, h')"
    and "6 \<le> length stack"
    and "unpack fuel st h' (Some e1) (NewCallers stack 4 ! 1) = Some (Inr c1)"
    and "unpack fuel st h' (Some e2) (NewCallers stack 4 ! 1) = Some (Inr c2)"
    and "unpack fuel st h' (Some e3) (NewCallers stack 4 ! 1) = Some (Inr c3)"
  shows "j = Some (JoinError (length h)) \<and>
         callers (deref h' (length h)) = NewCallers stack 4 \<and>
         Unpack (Suc fuel) st h' j =
           Some (Inr (UnpackHierarchy None
                        (CallerLocations
                           (foldl addCallerLocation (UnpackHierarchy None [] [] [])
                              (map (getLocation st) (rev (NewCallers stack 4)))))
                        [] [c1, c2, c3]))"
proof -
  let ?cs = "NewCallers stack 4"
  have fresh: "j = Some (JoinError (length h))"
    "h' = h @ [\<lparr>callers = ?cs, errs = [Some e1, Some e2, Some e3]\<rparr>]"
    using assms(1,2) by (auto simp: Join_def JoinDepth_fresh)
  have len: "2 \<le> length ?cs"
    using assms(3) by (simp add: NewCallers_def runtime_Callers_def)
  have d: "deref h' (length h) = \<lparr>callers = ?cs, errs = [Some e1, Some e2, Some e3]\<rparr>"
    by (simp add: fresh deref_def)
  have ne: "?cs \<noteq> []" using len by auto
  have cause: "Cause h' j = j" using ne by (simp add: fresh(1) d)
  have start: "callerStartIndex ?cs 0 = int (length ?cs) - 1"
    by (simp add: callerStartIndex_def)
  have walk: "frameWalk st ?cs (int (length ?cs) - 1) None (UnpackHierarchy None [] [] []) =
               Inr (foldl addCallerLocation (UnpackHierarchy None [] [] [])
                      (map (getLocation st) (rev ?cs)))"
    using len by (subst frameWalk_None) simp_all
  show ?thesis
    using len assms(4-6)
    by (simp add: Unpack_def fresh(1) d ne start firstStackFrameError_def walk flatten_def)
qed

lemma Join_three_branches_example:
  "Unpack (Suc (Suc 0)) (\<lambda>pc. (''f.go'', uint pc, ''f''))
     [\<lparr>callers = [17, 33],
       errs = [Some (External ''a''), Some (External ''b''), Some (External ''c'')]\<rparr>]
     (Some (JoinError 0))
   = Some (Inr (UnpackHierarchy None
                  [\<lparr>Filename = ''f.go'', Line = 33, FuncName = ''f''\<rparr>,
                   \<lparr>Filename = ''f.go'', Line = 17, FuncName = ''f''\<rparr>]
                  []
                  [UnpackHierarchy (Some (External ''a'')) [] [] [],
                   UnpackHierarchy (Some (External ''b'')) [] [] [],
                   UnpackHierarchy (Some (External ''c'')) [] [] []]))"
proof -
  let ?st = "\<lambda>pc :: uintptr. (''f.go'', uint pc, ''f'')"
  let ?h' = "[\<lparr>callers = [17, 33],
               errs = [Some (External ''a''), Some (External ''b''), Some (External ''c'')]\<rparr>]"
  have cs: "NewCallers [1, 2, 3, 4, 17, 33] 4 = [17, 33]"
    by (simp add: NewCallers_def runtime_Callers_def)
  have j: "Join [] [1, 2, 3, 4, 17, 33]
             [Some (External ''a''), Some (External ''b''), Some (External ''c'')]
           = (Some (JoinError 0), ?h')"
    by (simp add: Join_def JoinDepth_fresh cs)
  have c: "unpack (Suc 0) ?st ?h' (Some (External x)) (NewCallers [1, 2, 3, 4, 17, 33] 4 ! 1)
             = Some (Inr (UnpackHierarchy (Some (External x)) [] [] []))" for x
    by simp
  have locs: "CallerLocations
                (foldl addCallerLocation (UnpackHierarchy None [] [] [])
                   (map (getLocation ?st) (rev [17, 33])))
              = [\<lparr>Filename = ''f.go'', Line = 33, FuncName = ''f''\<rparr>,
                 \<lparr>Filename = ''f.go'', Line = 17, FuncName = ''f''\<rparr>]"
    by code_simp
  have "\<forall>a. External ''a'' \<noteq> JoinError a" by simp
  from Join_three_branches [OF this j _ c c c] show ?thesis
    by (simp only: cs locs) simp
qed

text \<open>
  C8. When \<^verbatim>\<open>Cause\<close> finds no anchor for the input error, \<^verbatim>\<open>unpack\<close> returns a leaf
  hierarchy: its \<^verbatim>\<open>ErrExternal\<close> is the input error itself, and its caller locations,
  links and sub-hierarchies are empty.
\<close>

theorem unpack_no_anchor_leaf:
  "Cause h err = None \<Longrightarrow>
     unpack (Suc fuel) st h err parentPC = Some (Inr (UnpackHierarchy err [] [] []))"
  by simp

theorem unpack_no_anchor_leaf_witness:
  "Cause [] (Some (External ''EOF'')) = None \<and>
   unpack (Suc 0) (\<lambda>pc. ([], 0, [])) [] (Some (External ''EOF'')) 0
     = Some (Inr (UnpackHierarchy (Some (External ''EOF'')) [] [] []))"
  using unpack_no_anchor_leaf [of "[]" "Some (External ''EOF'')" 0 "\<lambda>pc. ([], 0, [])" 0]
  by simp




text \<open>
  C10. When \<^verbatim>\<open>unpack\<close> is given a non-zero \<^verbatim>\<open>parentPC\<close> that occurs nowhere in the
  capture of the anchor it found, the start index of the frame walk is \<open>-1\<close>, the frame
  walk emits nothing, and the result of \<^verbatim>\<open>unpack\<close> holds no caller location and no
  link of that capture: it is what the reconstructions of the anchor's causes give
  (no result or a panic when they give none), and when they return, it is the
  reconstruction of the cause itself when there is one cause, and otherwise a hierarchy
  with no caller location and no link whose sub-hierarchies are the reconstructions of
  the causes.
\<close>

theorem unpack_floor_absent_no_frames:
  assumes "Cause h err = Some fullStackErr" and "Callers h fullStackErr = Some cs"
    and "parentPC \<noteq> 0" and "parentPC \<notin> set cs"
  shows "callerStartIndex cs parentPC = - 1 \<and>
         frameWalk st cs (callerStartIndex cs parentPC) (firstStackFrameError err)
           (UnpackHierarchy None [] [] []) = Inr (UnpackHierarchy None [] [] []) \<and>
         unpack (Suc fuel) st h err parentPC =
           (case causeResults fuel st h fullStackErr cs of
              None \<Rightarrow> None
            | Some (Inl p) \<Rightarrow> Some (Inl p)
            | Some (Inr subs) \<Rightarrow>
                Some (Inr (if length subs = 1 then subs ! 0
                           else UnpackHierarchy None [] [] subs)))"
proof -
  have start: "callerStartIndex cs parentPC = - 1"
    using assms(3,4) by (simp add: callerStartIndex_def scanParentPC_absent)
  then have walk: "frameWalk st cs (callerStartIndex cs parentPC) (firstStackFrameError err)
                     (UnpackHierarchy None [] [] []) = Inr (UnpackHierarchy None [] [] [])"
    by (simp add: frameWalk_negative)
  have flat: "flatten (UnpackHierarchy None [] [] []) subs =
                (if length subs = 1 then subs ! 0 else UnpackHierarchy None [] [] subs)" for subs
    by (simp add: flatten_def)
  have "unpack (Suc fuel) st h err parentPC =
           (case causeResults fuel st h fullStackErr cs of
              None \<Rightarrow> None
            | Some (Inl p) \<Rightarrow> Some (Inl p)
            | Some (Inr subs) \<Rightarrow>
                Some (Inr (if length subs = 1 then subs ! 0
                           else UnpackHierarchy None [] [] subs)))"
    unfolding unpack_Suc using assms(1,2) walk
    by (simp add: flat split: option.splits sum.splits)
  with start walk show ?thesis by blast
qed

theorem unpack_floor_absent_no_frames_witness:
  "Cause [\<lparr>callers = [17, 33], errs = [Some (External ''a''), Some (External ''b'')]\<rparr>]
     (Some (JoinError 0)) = Some (JoinError 0) \<and>
   Callers [\<lparr>callers = [17, 33], errs = [Some (External ''a''), Some (External ''b'')]\<rparr>]
     (JoinError 0) = Some [17, 33] \<and>
   (153 :: uintptr) \<noteq> 0 \<and> 153 \<notin> set [17, 33 :: uintptr] \<and>
   callerStartIndex [17, 33] 153 = - 1 \<and>
   unpack (Suc (Suc 0)) (\<lambda>pc. (''f.go'', uint pc, ''f''))
     [\<lparr>callers = [17, 33], errs = [Some (External ''a''), Some (External ''b'')]\<rparr>]
     (Some (JoinError 0)) 153
   = Some (Inr (UnpackHierarchy None [] []
                  [UnpackHierarchy (Some (External ''a'')) [] [] [],
                   UnpackHierarchy (Some (External ''b'')) [] [] []])) \<and>
   unpack (Suc (Suc 0)) (\<lambda>pc. (''f.go'', uint pc, ''f''))
     [\<lparr>callers = [17, 33], errs = [Some (External ''a''), Some (External ''b'')]\<rparr>]
     (Some (JoinError 0)) 0
   = Some (Inr (UnpackHierarchy None
                  [\<lparr>Filename = ''f.go'', Line = 33, FuncName = ''f''\<rparr>,
                   \<lparr>Filename = ''f.go'', Line = 17, FuncName = ''f''\<rparr>]
                  []
                  [UnpackHierarchy (Some (External ''a'')) [] [] [],
                   UnpackHierarchy (Some (External ''b'')) [] [] []]))"
proof -
  let ?st = "\<lambda>pc :: uintptr. (''f.go'', uint pc, ''f'')"
  let ?h = "[\<lparr>callers = [17, 33], errs = [Some (External ''a''), Some (External ''b'')]\<rparr>]"
  have a: "Cause ?h (Some (JoinError 0)) = Some (JoinError 0)"
    and b: "Callers ?h (JoinError 0) = Some [17, 33]"
    and c: "(153 :: uintptr) \<noteq> 0" and d: "153 \<notin> set [17, 33 :: uintptr]"
    by (simp_all add: deref_def)
  have r: "causeResults (Suc 0) ?st ?h (JoinError 0) [17, 33] =
             Some (Inr [UnpackHierarchy (Some (External ''a'')) [] [] [],
                        UnpackHierarchy (Some (External ''b'')) [] [] []])"
    by (simp add: causeResults_def deref_def)
  from unpack_floor_absent_no_frames [OF a b c d, of ?st "Suc 0"]
  have e: "callerStartIndex [17, 33] 153 = - 1"
    and f: "unpack (Suc (Suc 0)) ?st ?h (Some (JoinError 0)) 153
              = Some (Inr (UnpackHierarchy None [] []
                  [UnpackHierarchy (Some (External ''a'')) [] [] [],
                   UnpackHierarchy (Some (External ''b'')) [] [] []]))"
    by (simp_all only: r) simp_all
  have g: "unpack (Suc (Suc 0)) ?st ?h (Some (JoinError 0)) 0
   = Some (Inr (UnpackHierarchy None
                  [\<lparr>Filename = ''f.go'', Line = 33, FuncName = ''f''\<rparr>,
                   \<lparr>Filename = ''f.go'', Line = 17, FuncName = ''f''\<rparr>]
                  []
                  [UnpackHierarchy (Some (External ''a'')) [] [] [],
                   UnpackHierarchy (Some (External ''b'')) [] [] []]))"
    by code_simp
  from a b c d e f g show ?thesis by blast
qed

end
